theory Spec2Isabelle
  imports Complex_Main "HOL-Library.Word" "HOL-Library.Log_Nat"
begin

section \<open>PWM motor and servo output driver (src/main/drivers/pwm\_output.c)\<close>

text \<open>
  The embedding follows \<^verbatim>\<open>pwm_output.c\<close> function by function, built with
  \<^verbatim>\<open>USE_SERVOS\<close> and \<^verbatim>\<open>USE_DSHOT\<close> defined; \<^verbatim>\<open>servoInit\<close>, on which no property
  below depends, is left out. The file-level variables
  (\<^verbatim>\<open>motors\<close>, \<^verbatim>\<open>servos\<close>, \<^verbatim>\<open>pwmCompleteWritePtr\<close>, \<^verbatim>\<open>pwmMotorsEnabled\<close>) are the
  fields of one state record that every operation takes and returns. The compare registers
  that the \<^verbatim>\<open>ccr\<close> pointers designate live in an explicit store from addresses to register
  words, so that two ports holding the same pointer share one register. Calls into the
  timer, GPIO and Dshot layers, whose code is in other files, are appended to a trace of
  events in call order.
\<close>

subsection \<open>Types declared in headers outside this file\<close>

type_synonym uint8_t = "8 word"
type_synonym uint16_t = "16 word"

text \<open>
  Pointers are addresses; a pointer that may be \<^verbatim>\<open>NULL\<close> and is dereferenced by this file
  (\<^verbatim>\<open>ccr\<close>) is an \<open>option\<close>. A \<^verbatim>\<open>TIM_TypeDef *\<close> is only compared and passed on, so it
  is a plain address with 0 for \<^verbatim>\<open>NULL\<close>. An \<^verbatim>\<open>ioTag_t\<close> is a number with 0 for
  "no pin".
\<close>

type_synonym addr = nat
type_synonym TIM_ptr = nat
type_synonym ioTag_t = nat
type_synonym IO_t = nat

text \<open>The fields of \<^verbatim>\<open>timerHardware_t\<close> that this file reads.\<close>

record timerHardware_t =
  hw_tim :: TIM_ptr
  hw_channel :: uint8_t
  hw_output :: uint8_t

datatype motorPwmProtocolTypes_e =
    PWM_TYPE_STANDARD
  | PWM_TYPE_ONESHOT125
  | PWM_TYPE_ONESHOT42
  | PWM_TYPE_MULTISHOT
  | PWM_TYPE_BRUSHED
  | PWM_TYPE_DSHOT600
  | PWM_TYPE_DSHOT300
  | PWM_TYPE_DSHOT150
  | PWM_TYPE_OTHER nat \<comment> \<open>any value the \<^verbatim>\<open>switch\<close> of \<^verbatim>\<open>motorInit\<close> does not name\<close>

text \<open>The values a \<^verbatim>\<open>pwmWriteFuncPtr\<close> and a \<^verbatim>\<open>pwmCompleteWriteFuncPtr\<close> take in this file.\<close>

datatype pwmWriteFuncPtr =
    WriteBrushed | WriteStandard | WriteOneShot125 | WriteOneShot42 | WriteMultiShot
  | WriteDigital

datatype pwmCompleteWriteFuncPtr = CompleteOneshotMotorUpdate | CompleteDigitalMotorUpdate

record pwmOutputPort_t =
  ccr :: "addr option"
  tim :: TIM_ptr
  period :: uint16_t
  pwmWritePtr :: "pwmWriteFuncPtr option"
  enabled :: bool
  io :: IO_t

record motorConfig_t =
  motorPwmProtocol :: motorPwmProtocolTypes_e
  useUnsyncedPwm :: bool
  motorPwmRate :: nat
  ioTags :: "nat \<Rightarrow> ioTag_t"

text \<open>
  The constants that \<^verbatim>\<open>platform.h\<close> and \<^verbatim>\<open>pwm_output.h\<close> define per target are parameters
  of the model; the capacities \<^verbatim>\<open>MAX_SUPPORTED_MOTORS\<close> and \<^verbatim>\<open>MAX_SUPPORTED_SERVOS\<close> are
  the lengths of the two port arrays.
\<close>

record target_t =
  ONESHOT125_TIMER_MHZ :: nat
  ONESHOT42_TIMER_MHZ :: nat
  MULTISHOT_TIMER_MHZ :: nat
  PWM_BRUSHED_TIMER_MHZ :: nat
  PWM_TIMER_MHZ :: nat
  TIMER_OUTPUT_ENABLED :: uint8_t

text \<open>The functions of the timer and GPIO layers whose results this file uses.\<close>

record hal_t =
  timerGetByTag :: "ioTag_t \<Rightarrow> timerHardware_t option"
  IOGetByTag :: "ioTag_t \<Rightarrow> IO_t"
  timerChCCR :: "timerHardware_t \<Rightarrow> addr"

text \<open>
  Calls that leave this file, with their arguments. What they do to the hardware is outside
  the model: they are recorded in call order and leave the register store of the model as
  it is.
\<close>

datatype hw_event =
    ConfigTimeBase TIM_ptr uint16_t uint8_t
  | PwmOCConfig TIM_ptr uint8_t uint16_t uint8_t
  | TIM_CtrlPWMOutputs TIM_ptr
  | TIM_Cmd TIM_ptr
  | TimerForceOverflow TIM_ptr
  | IOInit IO_t nat
  | IOConfigGPIO IO_t
  | PwmDigitalMotorHardwareConfig timerHardware_t nat motorPwmProtocolTypes_e
  | PwmWriteDigital uint8_t uint16_t
  | PwmCompleteDigitalMotorUpdate uint8_t

text \<open>
  What C leaves undefined and this file can reach: an index outside a port array, a store
  through a null \<^verbatim>\<open>ccr\<close>, a division by zero.
\<close>

datatype fault = OutOfBounds | NullPointer | DivideByZero

text \<open>
  The register type \<^verbatim>\<open>timCCR_t\<close> is declared in \<^verbatim>\<open>timer.h\<close> and differs between targets:
  it is the word type \<open>'w word\<close>, a parameter of the state.
\<close>

record (overloaded) ('w::len) pwm_state =
  motors :: "pwmOutputPort_t list"
  servos :: "pwmOutputPort_t list"
  pwmCompleteWritePtr :: "pwmCompleteWriteFuncPtr option"
  pwmMotorsEnabled :: bool
  regs :: "addr \<Rightarrow> 'w word"
  trace :: "hw_event list"

definition MAX_SUPPORTED_MOTORS :: "'w::len pwm_state \<Rightarrow> nat" where
  "MAX_SUPPORTED_MOTORS s = length (motors s)"

definition MAX_SUPPORTED_SERVOS :: "'w::len pwm_state \<Rightarrow> nat" where
  "MAX_SUPPORTED_SERVOS s = length (servos s)"

text \<open>
  A zero-initialised port and the state at program start, for given capacities and given
  contents of the hardware registers.
\<close>

definition zero_port :: pwmOutputPort_t where
  "zero_port = \<lparr>ccr = None, tim = 0, period = 0, pwmWritePtr = None, enabled = False, io = 0\<rparr>"

definition initial_state :: "nat \<Rightarrow> nat \<Rightarrow> (addr \<Rightarrow> 'w word) \<Rightarrow> 'w::len pwm_state" where
  "initial_state nmotors nservos hw_regs =
     \<lparr>motors = replicate nmotors zero_port, servos = replicate nservos zero_port,
      pwmCompleteWritePtr = None, pwmMotorsEnabled = True, regs = hw_regs, trace = []\<rparr>"

subsection \<open>C arithmetic\<close>

text \<open>
  \<^verbatim>\<open>int\<close> is 32 bits wide on the targets; a product that leaves its range is taken modulo
  \<open>2 ^ 32\<close>, as the multiply instruction gives it. Division truncates towards zero.
\<close>

definition c_int :: "int \<Rightarrow> int" where
  "c_int x = (x + 2 ^ 31) mod 2 ^ 32 - 2 ^ 31"

definition c_div :: "int \<Rightarrow> int \<Rightarrow> int" where
  "c_div a b = sgn a * sgn b * (\<bar>a\<bar> div \<bar>b\<bar>)"

text \<open>
  \<^verbatim>\<open>float\<close> is IEEE 754 binary32 and every operation rounds its exact result to the nearest
  representable value, ties to the even significand. A value is the rational it denotes.
  \<open>ilogb x\<close> is the exponent \<open>e\<close> with \<open>2 ^ e \<le> \<bar>x\<bar> < 2 ^ (e + 1)\<close>; a significand has 24
  bits and the least exponent is \<open>-126\<close>, below which the spacing stays \<open>2 ^ -149\<close>. Results
  of magnitude \<open>2 ^ 128\<close> and more (infinities in binary32) are not represented: the
  operands in this file are 32-bit integers and two-factor products of them.
\<close>

definition ilogb :: "rat \<Rightarrow> int" where
  "ilogb x = (if 1 \<le> \<bar>x\<bar> then bitlen \<lfloor>\<bar>x\<bar>\<rfloor> - 1 else - bitlen (\<lceil>1 / \<bar>x\<bar>\<rceil> - 1))"

text \<open>
  Rounding to the nearest integer, ties to even: \<^verbatim>\<open>lrintf\<close> in the default rounding mode.
  The model keeps the integer also where it would not fit \<^verbatim>\<open>long\<close> and C leaves the result
  unspecified; with clock constants up to 255 every result fits 16 bits.
\<close>

definition lrintf :: "rat \<Rightarrow> int" where
  "lrintf x =
     (let f = \<lfloor>x\<rfloor>; d = x - of_int f
      in if d < 1 / 2 then f else if 1 / 2 < d then f + 1 else if even f then f else f + 1)"

definition ulp32 :: "rat \<Rightarrow> rat" where
  "ulp32 x = 2 powi (max (ilogb x) (- 126) - 23)"

definition fl32 :: "rat \<Rightarrow> rat" where
  "fl32 x = (if x = 0 then 0 else of_int (lrintf (x / ulp32 x)) * ulp32 x)"

definition float_of_int :: "int \<Rightarrow> rat" where
  "float_of_int n = fl32 (of_int n)"

definition fdiv :: "rat \<Rightarrow> rat \<Rightarrow> rat" where
  "fdiv a b = fl32 (a / b)"

definition fmul :: "rat \<Rightarrow> rat \<Rightarrow> rat" where
  "fmul a b = fl32 (a * b)"

definition fadd :: "rat \<Rightarrow> rat \<Rightarrow> rat" where
  "fadd a b = fl32 (a + b)"

subsection \<open>The value each protocol computes for the compare register\<close>

text \<open>\<^verbatim>\<open>(value - 1000) * motors[index].period / 1000\<close>, in \<^verbatim>\<open>int\<close>.\<close>

definition brushed_compare :: "uint16_t \<Rightarrow> uint16_t \<Rightarrow> int" where
  "brushed_compare val per = c_div (c_int ((uint val - 1000) * uint per)) 1000"

text \<open>\<^verbatim>\<open>lrintf((float)(value * ONESHOT125_TIMER_MHZ/8.0f))\<close>.\<close>

definition oneshot125_compare :: "target_t \<Rightarrow> uint16_t \<Rightarrow> int" where
  "oneshot125_compare tgt val =
     lrintf (fdiv (float_of_int (c_int (uint val * int (ONESHOT125_TIMER_MHZ tgt)))) 8)"

text \<open>\<^verbatim>\<open>lrintf((float)(value * ONESHOT42_TIMER_MHZ/24.0f))\<close>.\<close>

definition oneshot42_compare :: "target_t \<Rightarrow> uint16_t \<Rightarrow> int" where
  "oneshot42_compare tgt val =
     lrintf (fdiv (float_of_int (c_int (uint val * int (ONESHOT42_TIMER_MHZ tgt)))) 24)"

text \<open>
  \<^verbatim>\<open>#define MULTISHOT_5US_PW (MULTISHOT_TIMER_MHZ * 5)\<close> and
  \<^verbatim>\<open>#define MULTISHOT_20US_MULT (MULTISHOT_TIMER_MHZ * 20 / 1000.0f)\<close>.
\<close>

definition MULTISHOT_5US_PW :: "target_t \<Rightarrow> int" where
  "MULTISHOT_5US_PW tgt = c_int (int (MULTISHOT_TIMER_MHZ tgt) * 5)"

definition MULTISHOT_20US_MULT :: "target_t \<Rightarrow> rat" where
  "MULTISHOT_20US_MULT tgt = fdiv (float_of_int (c_int (int (MULTISHOT_TIMER_MHZ tgt) * 20))) 1000"

text \<open>\<^verbatim>\<open>lrintf(((float)(value-1000) * MULTISHOT_20US_MULT) + MULTISHOT_5US_PW)\<close>.\<close>

definition multishot_compare :: "target_t \<Rightarrow> uint16_t \<Rightarrow> int" where
  "multishot_compare tgt val =
     lrintf (fadd (fmul (float_of_int (uint val - 1000)) (MULTISHOT_20US_MULT tgt))
                  (float_of_int (MULTISHOT_5US_PW tgt)))"

subsection \<open>Writing one motor\<close>

text \<open>\<^verbatim>\<open>*motors[index].ccr = v\<close>, the right-hand side already converted to the register type.\<close>

definition store_motor_ccr :: "nat \<Rightarrow> 'w word \<Rightarrow> 'w::len pwm_state \<Rightarrow> fault + 'w pwm_state" where
  "store_motor_ccr index v s =
     (if index < length (motors s) then
        (case ccr (motors s ! index) of
           None \<Rightarrow> Inl NullPointer
         | Some a \<Rightarrow> Inr (s\<lparr>regs := (regs s)(a := v)\<rparr>))
      else Inl OutOfBounds)"

definition pwmWriteBrushed :: "uint8_t \<Rightarrow> uint16_t \<Rightarrow> 'w::len pwm_state \<Rightarrow> fault + 'w pwm_state" where
  "pwmWriteBrushed index val s =
     (if unat index < length (motors s) then
        store_motor_ccr (unat index)
          (word_of_int (brushed_compare val (period (motors s ! unat index)))) s
      else Inl OutOfBounds)"

definition pwmWriteStandard :: "uint8_t \<Rightarrow> uint16_t \<Rightarrow> 'w::len pwm_state \<Rightarrow> fault + 'w pwm_state" where
  "pwmWriteStandard index val s = store_motor_ccr (unat index) (ucast val) s"

definition pwmWriteOneShot125 ::
  "target_t \<Rightarrow> uint8_t \<Rightarrow> uint16_t \<Rightarrow> 'w::len pwm_state \<Rightarrow> fault + 'w pwm_state" where
  "pwmWriteOneShot125 tgt index val s =
     store_motor_ccr (unat index) (word_of_int (oneshot125_compare tgt val)) s"

definition pwmWriteOneShot42 ::
  "target_t \<Rightarrow> uint8_t \<Rightarrow> uint16_t \<Rightarrow> 'w::len pwm_state \<Rightarrow> fault + 'w pwm_state" where
  "pwmWriteOneShot42 tgt index val s =
     store_motor_ccr (unat index) (word_of_int (oneshot42_compare tgt val)) s"

definition pwmWriteMultiShot ::
  "target_t \<Rightarrow> uint8_t \<Rightarrow> uint16_t \<Rightarrow> 'w::len pwm_state \<Rightarrow> fault + 'w pwm_state" where
  "pwmWriteMultiShot tgt index val s =
     store_motor_ccr (unat index) (word_of_int (multishot_compare tgt val)) s"

text \<open>
  Modelled from the spec: \<^verbatim>\<open>pwmWriteDigital\<close> is defined in the Dshot driver, not in this
  file. The spec keeps the compare-register bookkeeping of digital ports out of this core:
  the call is recorded in the trace and the register store stays as it is.
\<close>

definition pwmWriteDigital :: "uint8_t \<Rightarrow> uint16_t \<Rightarrow> 'w::len pwm_state \<Rightarrow> fault + 'w pwm_state" where
  "pwmWriteDigital index val s = Inr (s\<lparr>trace := trace s @ [PwmWriteDigital index val]\<rparr>)"

text \<open>Calling through a \<^verbatim>\<open>pwmWriteFuncPtr\<close>.\<close>

fun call_pwmWritePtr ::
  "pwmWriteFuncPtr \<Rightarrow> target_t \<Rightarrow> uint8_t \<Rightarrow> uint16_t \<Rightarrow> 'w::len pwm_state \<Rightarrow> fault + 'w pwm_state" where
  "call_pwmWritePtr WriteBrushed tgt index val s = pwmWriteBrushed index val s"
| "call_pwmWritePtr WriteStandard tgt index val s = pwmWriteStandard index val s"
| "call_pwmWritePtr WriteOneShot125 tgt index val s = pwmWriteOneShot125 tgt index val s"
| "call_pwmWritePtr WriteOneShot42 tgt index val s = pwmWriteOneShot42 tgt index val s"
| "call_pwmWritePtr WriteMultiShot tgt index val s = pwmWriteMultiShot tgt index val s"
| "call_pwmWritePtr WriteDigital tgt index val s = pwmWriteDigital index val s"

definition pwmWriteMotor ::
  "target_t \<Rightarrow> uint8_t \<Rightarrow> uint16_t \<Rightarrow> 'w::len pwm_state \<Rightarrow> fault + 'w pwm_state" where
  "pwmWriteMotor tgt index val s =
     (if unat index < MAX_SUPPORTED_MOTORS s \<and> pwmMotorsEnabled s then
        (case pwmWritePtr (motors s ! unat index) of
           None \<Rightarrow> Inr s
         | Some f \<Rightarrow> call_pwmWritePtr f tgt index val s)
      else Inr s)"

definition pwmDisableMotors :: "'w::len pwm_state \<Rightarrow> 'w pwm_state" where
  "pwmDisableMotors s = s\<lparr>pwmMotorsEnabled := False\<rparr>"

definition pwmEnableMotors :: "'w::len pwm_state \<Rightarrow> 'w pwm_state" where
  "pwmEnableMotors s = s\<lparr>pwmMotorsEnabled := True\<rparr>"

subsection \<open>Servos\<close>

definition pwmWriteServo :: "uint8_t \<Rightarrow> uint16_t \<Rightarrow> 'w::len pwm_state \<Rightarrow> 'w pwm_state" where
  "pwmWriteServo index val s =
     (if unat index < MAX_SUPPORTED_SERVOS s then
        (case ccr (servos s ! unat index) of
           None \<Rightarrow> s
         | Some a \<Rightarrow> s\<lparr>regs := (regs s)(a := ucast val)\<rparr>)
      else s)"

subsection \<open>Stopping all pulses\<close>

function shutdown_loop :: "nat \<Rightarrow> nat \<Rightarrow> 'w::len pwm_state \<Rightarrow> fault + 'w pwm_state" where
  "shutdown_loop index motorCount s =
     (if index < motorCount then
        (if index < length (motors s) then
           shutdown_loop (index + 1) motorCount
             (case ccr (motors s ! index) of
                None \<Rightarrow> s
              | Some a \<Rightarrow> s\<lparr>regs := (regs s)(a := 0)\<rparr>)
         else Inl OutOfBounds)
      else Inr s)"
  by pat_completeness auto
termination
  by (relation "measure (\<lambda>(index, motorCount, s). motorCount - index)") auto

definition pwmShutdownPulsesForAllMotors :: "uint8_t \<Rightarrow> 'w::len pwm_state \<Rightarrow> fault + 'w pwm_state" where
  "pwmShutdownPulsesForAllMotors motorCount s = shutdown_loop 0 (unat motorCount) s"

subsection \<open>Completing a synced update\<close>

text \<open>The inner loop: has a port before \<open>index\<close> the timer of port \<open>index\<close>?\<close>

function overflowed_scan :: "pwmOutputPort_t list \<Rightarrow> nat \<Rightarrow> nat \<Rightarrow> bool" where
  "overflowed_scan ms index j =
     (if j < index then
        (if tim (ms ! j) = tim (ms ! index) then True else overflowed_scan ms index (j + 1))
      else False)"
  by pat_completeness auto
termination
  by (relation "measure (\<lambda>(ms, index, j). index - j)") auto

function oneshot_loop :: "nat \<Rightarrow> nat \<Rightarrow> 'w::len pwm_state \<Rightarrow> fault + 'w pwm_state" where
  "oneshot_loop index motorCount s =
     (if index < motorCount then
        (if index < length (motors s) then
           (case store_motor_ccr index 0
                   (if overflowed_scan (motors s) index 0 then s
                    else s\<lparr>trace := trace s @ [TimerForceOverflow (tim (motors s ! index))]\<rparr>) of
              Inl e \<Rightarrow> Inl e
            | Inr s' \<Rightarrow> oneshot_loop (index + 1) motorCount s')
         else Inl OutOfBounds)
      else Inr s)"
  by pat_completeness auto
termination
  by (relation "measure (\<lambda>(index, motorCount, s). motorCount - index)") auto

definition pwmCompleteOneshotMotorUpdate ::
  "uint8_t \<Rightarrow> 'w::len pwm_state \<Rightarrow> fault + 'w pwm_state" where
  "pwmCompleteOneshotMotorUpdate motorCount s = oneshot_loop 0 (unat motorCount) s"

text \<open>
  Modelled from the spec: \<^verbatim>\<open>pwmCompleteDigitalMotorUpdate\<close> is defined in the Dshot driver,
  not in this file; the completion of a digital update is delegated to it entirely. The
  call is recorded in the trace.
\<close>

definition pwmCompleteDigitalMotorUpdate ::
  "uint8_t \<Rightarrow> 'w::len pwm_state \<Rightarrow> fault + 'w pwm_state" where
  "pwmCompleteDigitalMotorUpdate motorCount s =
     Inr (s\<lparr>trace := trace s @ [PwmCompleteDigitalMotorUpdate motorCount]\<rparr>)"

definition pwmCompleteMotorUpdate :: "uint8_t \<Rightarrow> 'w::len pwm_state \<Rightarrow> fault + 'w pwm_state" where
  "pwmCompleteMotorUpdate motorCount s =
     (case pwmCompleteWritePtr s of
        None \<Rightarrow> Inr s
      | Some CompleteOneshotMotorUpdate \<Rightarrow> pwmCompleteOneshotMotorUpdate motorCount s
      | Some CompleteDigitalMotorUpdate \<Rightarrow> pwmCompleteDigitalMotorUpdate motorCount s)"

definition pwmIsSynced :: "'w::len pwm_state \<Rightarrow> bool" where
  "pwmIsSynced s = (pwmCompleteWritePtr s \<noteq> None)"

definition pwmGetMotors :: "'w::len pwm_state \<Rightarrow> pwmOutputPort_t list" where
  "pwmGetMotors s = motors s"

subsection \<open>Initialisation\<close>

text \<open>
  \<^verbatim>\<open>pwmOCConfig\<close> fills a \<^verbatim>\<open>TIM_OCInitTypeDef\<close> from its arguments and hands it to
  \<^verbatim>\<open>timerOCInit\<close> and \<^verbatim>\<open>timerOCPreloadConfig\<close>; it is recorded as one event carrying them.
  \<^verbatim>\<open>pwmOutConfig\<close> receives the port by pointer: the model takes the port and returns it
  updated, and the caller puts it back into its array.
\<close>

definition pwmOutConfig ::
  "target_t \<Rightarrow> hal_t \<Rightarrow> pwmOutputPort_t \<Rightarrow> timerHardware_t \<Rightarrow> uint8_t \<Rightarrow> uint16_t \<Rightarrow> uint16_t \<Rightarrow>
   'w::len pwm_state \<Rightarrow> pwmOutputPort_t \<times> 'w pwm_state" where
  "pwmOutConfig tgt hal port timerHardware mhz per val s =
     (port\<lparr>ccr := Some (timerChCCR hal timerHardware), period := per, tim := hw_tim timerHardware\<rparr>,
      s\<lparr>trace := trace s @
            [ConfigTimeBase (hw_tim timerHardware) per mhz,
             PwmOCConfig (hw_tim timerHardware) (hw_channel timerHardware) val (hw_output timerHardware)] @
            (if and (hw_output timerHardware) (TIMER_OUTPUT_ENABLED tgt) \<noteq> 0
             then [TIM_CtrlPWMOutputs (hw_tim timerHardware)] else []) @
            [TIM_Cmd (hw_tim timerHardware)],
         regs := (regs s)(timerChCCR hal timerHardware := 0)\<rparr>)"

text \<open>
  The locals of \<^verbatim>\<open>motorInit\<close> after its \<^verbatim>\<open>switch\<close>. For a Dshot protocol the \<^verbatim>\<open>switch\<close> leaves
  \<^verbatim>\<open>timerMhzCounter\<close> and \<^verbatim>\<open>pwmWritePtr\<close> unassigned (and the loop never reads them): they
  are 0 and \<open>None\<close> here.
\<close>

record motorInit_locals =
  timerMhzCounter :: nat
  l_pwmWritePtr :: "pwmWriteFuncPtr option"
  l_useUnsyncedPwm :: bool
  l_idlePulse :: uint16_t
  isDigital :: bool

fun motorInit_switch ::
  "target_t \<Rightarrow> motorPwmProtocolTypes_e \<Rightarrow> bool \<Rightarrow> uint16_t \<Rightarrow> motorInit_locals" where
  "motorInit_switch tgt PWM_TYPE_ONESHOT42 unsynced idlePulse =
     \<lparr>timerMhzCounter = ONESHOT42_TIMER_MHZ tgt mod 2 ^ 32, l_pwmWritePtr = Some WriteOneShot42,
      l_useUnsyncedPwm = unsynced, l_idlePulse = idlePulse, isDigital = False\<rparr>"
| "motorInit_switch tgt PWM_TYPE_MULTISHOT unsynced idlePulse =
     \<lparr>timerMhzCounter = MULTISHOT_TIMER_MHZ tgt mod 2 ^ 32, l_pwmWritePtr = Some WriteMultiShot,
      l_useUnsyncedPwm = unsynced, l_idlePulse = idlePulse, isDigital = False\<rparr>"
| "motorInit_switch tgt PWM_TYPE_BRUSHED unsynced idlePulse =
     \<lparr>timerMhzCounter = PWM_BRUSHED_TIMER_MHZ tgt mod 2 ^ 32, l_pwmWritePtr = Some WriteBrushed,
      l_useUnsyncedPwm = True, l_idlePulse = 0, isDigital = False\<rparr>"
| "motorInit_switch tgt PWM_TYPE_STANDARD unsynced idlePulse =
     \<lparr>timerMhzCounter = PWM_TIMER_MHZ tgt mod 2 ^ 32, l_pwmWritePtr = Some WriteStandard,
      l_useUnsyncedPwm = True, l_idlePulse = 0, isDigital = False\<rparr>"
| "motorInit_switch tgt PWM_TYPE_DSHOT600 unsynced idlePulse =
     \<lparr>timerMhzCounter = 0, l_pwmWritePtr = None,
      l_useUnsyncedPwm = unsynced, l_idlePulse = idlePulse, isDigital = True\<rparr>"
| "motorInit_switch tgt PWM_TYPE_DSHOT300 unsynced idlePulse =
     \<lparr>timerMhzCounter = 0, l_pwmWritePtr = None,
      l_useUnsyncedPwm = unsynced, l_idlePulse = idlePulse, isDigital = True\<rparr>"
| "motorInit_switch tgt PWM_TYPE_DSHOT150 unsynced idlePulse =
     \<lparr>timerMhzCounter = 0, l_pwmWritePtr = None,
      l_useUnsyncedPwm = unsynced, l_idlePulse = idlePulse, isDigital = True\<rparr>"
| "motorInit_switch tgt _ unsynced idlePulse =
     \<lparr>timerMhzCounter = ONESHOT125_TIMER_MHZ tgt mod 2 ^ 32, l_pwmWritePtr = Some WriteOneShot125,
      l_useUnsyncedPwm = unsynced, l_idlePulse = idlePulse, isDigital = False\<rparr>"

text \<open>The two assignments to \<^verbatim>\<open>pwmCompleteWritePtr\<close>: in the Dshot cases and after the \<^verbatim>\<open>switch\<close>.\<close>

definition motorInit_complete_ptr ::
  "motorInit_locals \<Rightarrow> pwmCompleteWriteFuncPtr option \<Rightarrow> pwmCompleteWriteFuncPtr option" where
  "motorInit_complete_ptr l old =
     (let p = (if isDigital l then Some CompleteDigitalMotorUpdate else old)
      in if \<not> l_useUnsyncedPwm l \<and> \<not> isDigital l then Some CompleteOneshotMotorUpdate else p)"

text \<open>One pass of the loop body for a slot whose tag resolved to \<open>timerHardware\<close>.\<close>

definition motorInit_slot ::
  "target_t \<Rightarrow> hal_t \<Rightarrow> motorConfig_t \<Rightarrow> motorInit_locals \<Rightarrow> nat \<Rightarrow> ioTag_t \<Rightarrow> timerHardware_t \<Rightarrow>
   'w::len pwm_state \<Rightarrow> fault + 'w pwm_state" where
  "motorInit_slot tgt hal motorConfig l motorIndex tag timerHardware s =
     (if isDigital l then
        Inr (s\<lparr>motors := (motors s)[motorIndex :=
                   (motors s ! motorIndex)\<lparr>pwmWritePtr := Some WriteDigital, enabled := True\<rparr>],
               trace := trace s @
                   [PwmDigitalMotorHardwareConfig timerHardware motorIndex (motorPwmProtocol motorConfig)]\<rparr>)
      else
        (let port = (motors s ! motorIndex)\<lparr>io := IOGetByTag hal tag, pwmWritePtr := l_pwmWritePtr l\<rparr>;
             s1 = s\<lparr>trace := trace s @ [IOInit (IOGetByTag hal tag) motorIndex,
                                          IOConfigGPIO (IOGetByTag hal tag)]\<rparr>
         in if l_useUnsyncedPwm l then
              (if motorPwmRate motorConfig = 0 then Inl DivideByZero
               else
                 (case pwmOutConfig tgt hal port timerHardware (of_nat (timerMhzCounter l))
                         (of_nat ((timerMhzCounter l * 1000000 mod 2 ^ 32) div motorPwmRate motorConfig))
                         (l_idlePulse l) s1 of
                    (port', s2) \<Rightarrow>
                      Inr (s2\<lparr>motors := (motors s2)[motorIndex := port'\<lparr>enabled := True\<rparr>]\<rparr>)))
            else
              (case pwmOutConfig tgt hal port timerHardware (of_nat (timerMhzCounter l)) 0xFFFF 0 s1 of
                 (port', s2) \<Rightarrow>
                   Inr (s2\<lparr>motors := (motors s2)[motorIndex := port'\<lparr>enabled := True\<rparr>]\<rparr>))))"

function motorInit_loop ::
  "target_t \<Rightarrow> hal_t \<Rightarrow> motorConfig_t \<Rightarrow> motorInit_locals \<Rightarrow> nat \<Rightarrow> nat \<Rightarrow>
   'w::len pwm_state \<Rightarrow> fault + 'w pwm_state" where
  "motorInit_loop tgt hal motorConfig l motorIndex motorCount s =
     (if motorIndex < MAX_SUPPORTED_MOTORS s \<and> motorIndex < motorCount then
        (if ioTags motorConfig motorIndex = 0 then Inr s
         else
           (case timerGetByTag hal (ioTags motorConfig motorIndex) of
              None \<Rightarrow> Inr s
            | Some timerHardware \<Rightarrow>
                (case motorInit_slot tgt hal motorConfig l motorIndex
                        (ioTags motorConfig motorIndex) timerHardware s of
                   Inl e \<Rightarrow> Inl e
                 | Inr s' \<Rightarrow> motorInit_loop tgt hal motorConfig l (motorIndex + 1) motorCount s')))
      else Inr s)"
  by pat_completeness auto
termination
  by (relation "measure (\<lambda>(tgt, hal, motorConfig, l, motorIndex, motorCount, s). motorCount - motorIndex)")
     auto

definition motorInit ::
  "target_t \<Rightarrow> hal_t \<Rightarrow> motorConfig_t \<Rightarrow> uint16_t \<Rightarrow> uint8_t \<Rightarrow> 'w::len pwm_state \<Rightarrow>
   fault + 'w pwm_state" where
  "motorInit tgt hal motorConfig idlePulse motorCount s =
     (let l = motorInit_switch tgt (motorPwmProtocol motorConfig) (useUnsyncedPwm motorConfig) idlePulse
      in motorInit_loop tgt hal motorConfig l 0 (unat motorCount)
           (s\<lparr>pwmCompleteWritePtr := motorInit_complete_ptr l (pwmCompleteWritePtr s)\<rparr>))"

subsection \<open>Notions used to state the properties\<close>

text \<open>
  The timers of ports \<open>0..n-1\<close>, each listed once, at the first index that carries it.
\<close>

definition first_index_timers :: "pwmOutputPort_t list \<Rightarrow> nat \<Rightarrow> TIM_ptr list" where
  "first_index_timers ms n =
     map (\<lambda>i. tim (ms ! i)) (filter (\<lambda>i. tim (ms ! i) \<notin> tim ` set (take i ms)) [0..<n])"

text \<open>
  A bank for checking the theorems on concrete values: four motors, two on timer 1 and two
  on timer 2, interleaved, and one servo; every register holds 7.
\<close>

definition example_port :: "addr \<Rightarrow> TIM_ptr \<Rightarrow> pwmOutputPort_t" where
  "example_port a t =
     \<lparr>ccr = Some a, tim = t, period = 1000, pwmWritePtr = Some WriteBrushed, enabled = True, io = 0\<rparr>"

definition example_state :: "32 pwm_state" where
  "example_state =
     \<lparr>motors = [example_port 10 1, example_port 11 2, example_port 12 1, example_port 13 2],
      servos = [example_port 20 3],
      pwmCompleteWritePtr = Some CompleteOneshotMotorUpdate, pwmMotorsEnabled = True,
      regs = (\<lambda>a. 7), trace = []\<rparr>"

definition example_target :: target_t where
  "example_target =
     \<lparr>ONESHOT125_TIMER_MHZ = 8, ONESHOT42_TIMER_MHZ = 24, MULTISHOT_TIMER_MHZ = 72,
      PWM_BRUSHED_TIMER_MHZ = 24, PWM_TIMER_MHZ = 1, TIMER_OUTPUT_ENABLED = 1\<rparr>"

text \<open>
  What ties the \<^verbatim>\<open>enabled\<close> flag of a port to \<^verbatim>\<open>pwmWritePtr\<close>, which is the field that
  \<^verbatim>\<open>pwmWriteMotor\<close> tests: a port is enabled exactly when a write function is bound, and a
  port bound to one of the five analog write functions has a compare register.
  \<^verbatim>\<open>motorInit\<close> keeps this true of every port (\<open>motorInit_port_ok\<close> below).
\<close>

definition port_ok :: "pwmOutputPort_t \<Rightarrow> bool" where
  "port_ok p =
     (case pwmWritePtr p of
        None \<Rightarrow> \<not> enabled p
      | Some WriteDigital \<Rightarrow> enabled p
      | Some f \<Rightarrow> enabled p \<and> ccr p \<noteq> None)"

text \<open>
  The word that the write function \<open>f\<close> stores for a command value; \<open>None\<close> for
  \<^verbatim>\<open>pwmWriteDigital\<close>, which stores none in this file.
\<close>

fun protocol_compare ::
  "target_t \<Rightarrow> pwmWriteFuncPtr \<Rightarrow> uint16_t \<Rightarrow> uint16_t \<Rightarrow> 'w::len word option" where
  "protocol_compare tgt WriteBrushed per val = Some (word_of_int (brushed_compare val per))"
| "protocol_compare tgt WriteStandard per val = Some (ucast val)"
| "protocol_compare tgt WriteOneShot125 per val = Some (word_of_int (oneshot125_compare tgt val))"
| "protocol_compare tgt WriteOneShot42 per val = Some (word_of_int (oneshot42_compare tgt val))"
| "protocol_compare tgt WriteMultiShot per val = Some (word_of_int (multishot_compare tgt val))"
| "protocol_compare tgt WriteDigital per val = None"

text \<open>
  Whether a configuration needs the once-per-cycle completion step: a Dshot protocol, or a
  oneshot-family protocol (OneShot125, OneShot42, Multishot, or a value the \<^verbatim>\<open>switch\<close> does not
  name, which it treats as OneShot125) that is not configured free-running.
\<close>

definition resync_required :: "motorConfig_t \<Rightarrow> bool" where
  "resync_required motorConfig =
     (case motorPwmProtocol motorConfig of
        PWM_TYPE_STANDARD \<Rightarrow> False
      | PWM_TYPE_BRUSHED \<Rightarrow> False
      | PWM_TYPE_DSHOT600 \<Rightarrow> True
      | PWM_TYPE_DSHOT300 \<Rightarrow> True
      | PWM_TYPE_DSHOT150 \<Rightarrow> True
      | _ \<Rightarrow> \<not> useUnsyncedPwm motorConfig)"

text \<open>
  What the specification prescribes for a slot, written from its protocol table (section
  4.1) and its rules for the period and the idle value (section 4.3), not from
  \<^verbatim>\<open>motorInit\<close>. The table, column by column: which protocols are digital; the clock basis
  in MHz; the encoder bound as write operation (a protocol the table does not name defaults
  to OneShot125); whether the protocol forces free-running output.
\<close>

fun spec_is_digital :: "motorPwmProtocolTypes_e \<Rightarrow> bool" where
  "spec_is_digital PWM_TYPE_DSHOT600 = True"
| "spec_is_digital PWM_TYPE_DSHOT300 = True"
| "spec_is_digital PWM_TYPE_DSHOT150 = True"
| "spec_is_digital _ = False"

fun spec_clock_mhz :: "target_t \<Rightarrow> motorPwmProtocolTypes_e \<Rightarrow> nat" where
  "spec_clock_mhz tgt PWM_TYPE_STANDARD = PWM_TIMER_MHZ tgt"
| "spec_clock_mhz tgt PWM_TYPE_BRUSHED = PWM_BRUSHED_TIMER_MHZ tgt"
| "spec_clock_mhz tgt PWM_TYPE_ONESHOT42 = ONESHOT42_TIMER_MHZ tgt"
| "spec_clock_mhz tgt PWM_TYPE_MULTISHOT = MULTISHOT_TIMER_MHZ tgt"
| "spec_clock_mhz tgt PWM_TYPE_DSHOT600 = 0"
| "spec_clock_mhz tgt PWM_TYPE_DSHOT300 = 0"
| "spec_clock_mhz tgt PWM_TYPE_DSHOT150 = 0"
| "spec_clock_mhz tgt _ = ONESHOT125_TIMER_MHZ tgt"

fun spec_encoder :: "motorPwmProtocolTypes_e \<Rightarrow> pwmWriteFuncPtr" where
  "spec_encoder PWM_TYPE_STANDARD = WriteStandard"
| "spec_encoder PWM_TYPE_BRUSHED = WriteBrushed"
| "spec_encoder PWM_TYPE_ONESHOT42 = WriteOneShot42"
| "spec_encoder PWM_TYPE_MULTISHOT = WriteMultiShot"
| "spec_encoder PWM_TYPE_DSHOT600 = WriteDigital"
| "spec_encoder PWM_TYPE_DSHOT300 = WriteDigital"
| "spec_encoder PWM_TYPE_DSHOT150 = WriteDigital"
| "spec_encoder _ = WriteOneShot125"

fun spec_forces_unsynced :: "motorPwmProtocolTypes_e \<Rightarrow> bool" where
  "spec_forces_unsynced PWM_TYPE_STANDARD = True"
| "spec_forces_unsynced PWM_TYPE_BRUSHED = True"
| "spec_forces_unsynced _ = False"

text \<open>
  An analog configuration is free-running when its protocol forces it or the configuration
  asks for it. A free-running slot gets the period clock over configured rate, in timer
  ticks, and the idle value of the table (0 for Standard and Brushed, the given idle pulse
  otherwise); a synced slot gets the maximum representable period and the idle value 0.
\<close>

definition spec_free_running :: "motorConfig_t \<Rightarrow> bool" where
  "spec_free_running motorConfig \<longleftrightarrow>
     spec_forces_unsynced (motorPwmProtocol motorConfig) \<or> useUnsyncedPwm motorConfig"

definition spec_period :: "target_t \<Rightarrow> motorConfig_t \<Rightarrow> nat" where
  "spec_period tgt motorConfig =
     (if spec_free_running motorConfig
      then spec_clock_mhz tgt (motorPwmProtocol motorConfig) * 1000000 div motorPwmRate motorConfig
      else 65535)"

definition spec_idle :: "motorConfig_t \<Rightarrow> uint16_t \<Rightarrow> uint16_t" where
  "spec_idle motorConfig idlePulse =
     (if spec_forces_unsynced (motorPwmProtocol motorConfig) then 0
      else if spec_free_running motorConfig then idlePulse else 0)"

text \<open>
  The port of a configured slot. A digital slot has its write operation bound and is
  enabled, without compare-register bookkeeping. An analog slot holds the compare register
  and the timer of its hardware, the period, the encoder of its protocol and its pin, and
  is enabled.
\<close>

definition spec_port ::
  "target_t \<Rightarrow> hal_t \<Rightarrow> motorConfig_t \<Rightarrow> ioTag_t \<Rightarrow> timerHardware_t \<Rightarrow>
   pwmOutputPort_t \<Rightarrow> pwmOutputPort_t" where
  "spec_port tgt hal motorConfig tag timerHardware old =
     (if spec_is_digital (motorPwmProtocol motorConfig)
      then old\<lparr>pwmWritePtr := Some WriteDigital, enabled := True\<rparr>
      else \<lparr>ccr = Some (timerChCCR hal timerHardware),
            tim = hw_tim timerHardware,
            period = of_nat (spec_period tgt motorConfig),
            pwmWritePtr = Some (spec_encoder (motorPwmProtocol motorConfig)),
            enabled = True,
            io = IOGetByTag hal tag\<rparr>)"

text \<open>
  The hardware calls that configure slot \<open>motorIndex\<close>, in order. A digital slot is handed
  to the digital driver. An analog slot has its pin claimed and set to alternate-function
  output, the time base of its timer set to the period and the clock, the output-compare
  channel programmed with the idle value, the outputs of the timer enabled where the
  hardware entry asks for it, and the timer started.
\<close>

definition spec_calls ::
  "target_t \<Rightarrow> hal_t \<Rightarrow> motorConfig_t \<Rightarrow> uint16_t \<Rightarrow> nat \<Rightarrow> ioTag_t \<Rightarrow> timerHardware_t \<Rightarrow>
   hw_event list" where
  "spec_calls tgt hal motorConfig idlePulse motorIndex tag timerHardware =
     (if spec_is_digital (motorPwmProtocol motorConfig)
      then [PwmDigitalMotorHardwareConfig timerHardware motorIndex (motorPwmProtocol motorConfig)]
      else [IOInit (IOGetByTag hal tag) motorIndex,
            IOConfigGPIO (IOGetByTag hal tag),
            ConfigTimeBase (hw_tim timerHardware) (of_nat (spec_period tgt motorConfig))
              (of_nat (spec_clock_mhz tgt (motorPwmProtocol motorConfig))),
            PwmOCConfig (hw_tim timerHardware) (hw_channel timerHardware)
              (spec_idle motorConfig idlePulse) (hw_output timerHardware)] @
           (if and (hw_output timerHardware) (TIMER_OUTPUT_ENABLED tgt) \<noteq> 0
            then [TIM_CtrlPWMOutputs (hw_tim timerHardware)] else []) @
           [TIM_Cmd (hw_tim timerHardware)])"

text \<open>
  A timer layer and a motor configuration for checking the theorems on concrete values:
  tags 1 to 8 resolve, slot 2 carries tag 9, which does not.
\<close>

definition example_hal :: hal_t where
  "example_hal =
     \<lparr>timerGetByTag = (\<lambda>tag. if tag = 0 \<or> 9 \<le> tag then None
                              else Some \<lparr>hw_tim = 100 + tag div 4, hw_channel = of_nat (tag mod 4),
                                        hw_output = 1\<rparr>),
      IOGetByTag = (\<lambda>tag. 200 + tag),
      timerChCCR = (\<lambda>hw. 4 * hw_tim hw + unat (hw_channel hw))\<rparr>"

definition example_config :: "motorPwmProtocolTypes_e \<Rightarrow> bool \<Rightarrow> motorConfig_t" where
  "example_config protocol unsynced =
     \<lparr>motorPwmProtocol = protocol, useUnsyncedPwm = unsynced, motorPwmRate = 480,
      ioTags = (\<lambda>i. if i = 0 then 1 else if i = 1 then 2 else if i = 2 then 9 else 3)\<rparr>"

text \<open>
  The range of the three oneshot-family clock constants for which the encoders are
  analysed: positive, and at most 255, the largest value that the \<^verbatim>\<open>uint8_t mhz\<close> parameter
  of \<^verbatim>\<open>pwmOutConfig\<close> can carry.
\<close>

definition clocks_ok :: "target_t \<Rightarrow> bool" where
  "clocks_ok tgt \<longleftrightarrow>
     0 < ONESHOT125_TIMER_MHZ tgt \<and> ONESHOT125_TIMER_MHZ tgt \<le> 255 \<and>
     0 < ONESHOT42_TIMER_MHZ tgt \<and> ONESHOT42_TIMER_MHZ tgt \<le> 255 \<and>
     0 < MULTISHOT_TIMER_MHZ tgt \<and> MULTISHOT_TIMER_MHZ tgt \<le> 255"

text \<open>
  Rounding to the nearest integer as the specification names it, with the tie rule made
  explicit: a value halfway between two integers goes to the even one.
\<close>

definition round_half_even :: "rat \<Rightarrow> int" where
  "round_half_even x =
     (let r = \<lfloor>x + 1 / 2\<rfloor> in if of_int r - x = 1 / 2 \<and> odd r then r - 1 else r)"

section \<open>Properties\<close>

subsection \<open>The loops over the motor ports\<close>

declare shutdown_loop.simps [simp del]
declare oneshot_loop.simps [simp del]
declare overflowed_scan.simps [simp del]
declare motorInit_loop.simps [simp del]

lemma shutdown_loop_eq:
  "motorCount \<le> length (motors s) \<Longrightarrow>
   shutdown_loop index motorCount s =
     Inr (s\<lparr>regs := (\<lambda>a. if (\<exists>k. index \<le> k \<and> k < motorCount \<and> ccr (motors s ! k) = Some a)
                          then 0 else regs s a)\<rparr>)"
proof (induction index motorCount s rule: shutdown_loop.induct)
  case (1 index motorCount s)
  show ?case
  proof (cases "index < motorCount")
    case False
    then have "(\<lambda>a. if (\<exists>k. index \<le> k \<and> k < motorCount \<and> ccr (motors s ! k) = Some a)
                          then 0 else regs s a) = regs s" by (intro ext) auto
    then show ?thesis using False by (subst shutdown_loop.simps) simp
  next
    case True
    then have inb: "index < length (motors s)" using "1.prems" by simp
    show ?thesis
    proof (cases "ccr (motors s ! index)")
      case None
      have step: "shutdown_loop index motorCount s = shutdown_loop (index + 1) motorCount s"
        using True inb None by (subst shutdown_loop.simps) simp
      have ih: "shutdown_loop (index + 1) motorCount s =
        Inr (s\<lparr>regs := (\<lambda>a. if (\<exists>k. index + 1 \<le> k \<and> k < motorCount \<and> ccr (motors s ! k) = Some a)
                          then 0 else regs s a)\<rparr>)"
      proof -
        have s1: "(case ccr (motors s ! index) of None \<Rightarrow> s | Some a \<Rightarrow> s\<lparr>regs := (regs s)(a := 0)\<rparr>) = s"
          using None by simp
        show ?thesis using "1.IH"[OF True inb, unfolded s1] "1.prems" by simp
      qed
      have "\<And>a. (\<exists>k. index + 1 \<le> k \<and> k < motorCount \<and> ccr (motors s ! k) = Some a) =
                (\<exists>k. index \<le> k \<and> k < motorCount \<and> ccr (motors s ! k) = Some a)"
        using None by (metis Suc_eq_plus1 Suc_leI le_neq_implies_less option.distinct(1) Suc_leD)
      then show ?thesis using step ih by simp
    next
      case (Some b)
      let ?s1 = "s\<lparr>regs := (regs s)(b := 0)\<rparr>"
      have step: "shutdown_loop index motorCount s = shutdown_loop (index + 1) motorCount ?s1"
        using True inb Some by (subst shutdown_loop.simps) simp
      have ih: "shutdown_loop (index + 1) motorCount ?s1 =
        Inr (?s1\<lparr>regs := (\<lambda>a. if (\<exists>k. index + 1 \<le> k \<and> k < motorCount \<and> ccr (motors s ! k) = Some a)
                          then 0 else regs ?s1 a)\<rparr>)"
      proof -
        have s1: "(case ccr (motors s ! index) of None \<Rightarrow> s | Some a \<Rightarrow> s\<lparr>regs := (regs s)(a := 0)\<rparr>) = ?s1"
          using Some by simp
        show ?thesis using "1.IH"[OF True inb, unfolded s1] "1.prems" by simp
      qed
      have ex: "\<And>a. (\<exists>k. index \<le> k \<and> k < motorCount \<and> ccr (motors s ! k) = Some a) =
                (a = b \<or> (\<exists>k. index + 1 \<le> k \<and> k < motorCount \<and> ccr (motors s ! k) = Some a))"
        using Some True
        by (metis Suc_eq_plus1 Suc_leI le_neq_implies_less option.inject Suc_leD le_refl)
      have "(\<lambda>a. if (\<exists>k. index + 1 \<le> k \<and> k < motorCount \<and> ccr (motors s ! k) = Some a)
                          then 0 else regs ?s1 a) =
            (\<lambda>a. if (\<exists>k. index \<le> k \<and> k < motorCount \<and> ccr (motors s ! k) = Some a)
                          then 0 else regs s a)"
        by (intro ext) (auto simp: ex)
      then show ?thesis using step ih by simp
    qed
  qed
qed

lemma shutdown_loop_oob:
  "length (motors s) < motorCount \<Longrightarrow> index \<le> length (motors s) \<Longrightarrow>
   shutdown_loop index motorCount s = Inl OutOfBounds"
proof (induction index motorCount s rule: shutdown_loop.induct)
  case (1 index motorCount s)
  show ?case
  proof (cases "index < length (motors s)")
    case True
    let ?s1 = "case ccr (motors s ! index) of None \<Rightarrow> s | Some a \<Rightarrow> s\<lparr>regs := (regs s)(a := 0)\<rparr>"
    have m1: "motors ?s1 = motors s" by (simp split: option.splits)
    have lt: "index < motorCount" using True "1.prems" by simp
    have "shutdown_loop (index + 1) motorCount ?s1 = Inl OutOfBounds"
      using "1.IH"[OF lt True] "1.prems" True m1 by simp
    then show ?thesis using True lt by (subst shutdown_loop.simps) simp
  next
    case False
    then show ?thesis using "1.prems" by (subst shutdown_loop.simps) simp
  qed
qed

lemma overflowed_scan_iff:
  "overflowed_scan ms index j \<longleftrightarrow> (\<exists>k. j \<le> k \<and> k < index \<and> tim (ms ! k) = tim (ms ! index))"
proof (induction ms index j rule: overflowed_scan.induct)
  case (1 ms index j)
  show ?case
  proof (cases "j < index")
    case False
    then show ?thesis by (subst overflowed_scan.simps) auto
  next
    case True
    show ?thesis
    proof (cases "tim (ms ! j) = tim (ms ! index)")
      case eq: True
      then show ?thesis using True by (subst overflowed_scan.simps) auto
    next
      case ne: False
      have "overflowed_scan ms index j = overflowed_scan ms index (j + 1)"
        using True ne by (subst overflowed_scan.simps) simp
      also have "\<dots> \<longleftrightarrow> (\<exists>k. j + 1 \<le> k \<and> k < index \<and> tim (ms ! k) = tim (ms ! index))"
        using "1.IH"[OF True ne] .
      also have "\<dots> \<longleftrightarrow> (\<exists>k. j \<le> k \<and> k < index \<and> tim (ms ! k) = tim (ms ! index))"
        using ne by (metis Suc_eq_plus1 Suc_leI le_neq_implies_less Suc_leD)
      finally show ?thesis .
    qed
  qed
qed

lemma oneshot_loop_eq:
  "motorCount \<le> length (motors s) \<Longrightarrow>
   (\<forall>k. index \<le> k \<and> k < motorCount \<longrightarrow> ccr (motors s ! k) \<noteq> None) \<Longrightarrow>
   oneshot_loop index motorCount s =
     Inr (s\<lparr>regs := (\<lambda>a. if (\<exists>k. index \<le> k \<and> k < motorCount \<and> ccr (motors s ! k) = Some a)
                          then 0 else regs s a),
            trace := trace s @ map (\<lambda>i. TimerForceOverflow (tim (motors s ! i)))
                        (filter (\<lambda>i. \<not> overflowed_scan (motors s) i 0) [index..<motorCount])\<rparr>)"
proof (induction index motorCount s rule: oneshot_loop.induct)
  case (1 index motorCount s)
  show ?case
  proof (cases "index < motorCount")
    case False
    then have "(\<lambda>a. if (\<exists>k. index \<le> k \<and> k < motorCount \<and> ccr (motors s ! k) = Some a)
                          then 0 else regs s a) = regs s" by (intro ext) auto
    then show ?thesis using False by (subst oneshot_loop.simps) simp
  next
    case True
    then have inb: "index < length (motors s)" using "1.prems" by simp
    obtain b where b: "ccr (motors s ! index) = Some b"
      using "1.prems"(2) True by (cases "ccr (motors s ! index)") auto
    let ?ev = "if overflowed_scan (motors s) index 0 then []
               else [TimerForceOverflow (tim (motors s ! index))]"
    let ?s0 = "if overflowed_scan (motors s) index 0 then s
               else s\<lparr>trace := trace s @ [TimerForceOverflow (tim (motors s ! index))]\<rparr>"
    let ?s1 = "s\<lparr>regs := (regs s)(b := 0), trace := trace s @ ?ev\<rparr>"
    have st: "store_motor_ccr index 0 ?s0 = Inr ?s1"
      using inb b by (simp add: store_motor_ccr_def)
    have step: "oneshot_loop index motorCount s = oneshot_loop (index + 1) motorCount ?s1"
      using True inb st by (subst oneshot_loop.simps) simp
    have ih: "oneshot_loop (index + 1) motorCount ?s1 =
        Inr (?s1\<lparr>regs := (\<lambda>a. if (\<exists>k. index + 1 \<le> k \<and> k < motorCount \<and> ccr (motors s ! k) = Some a)
                          then 0 else regs ?s1 a),
            trace := trace ?s1 @ map (\<lambda>i. TimerForceOverflow (tim (motors s ! i)))
                        (filter (\<lambda>i. \<not> overflowed_scan (motors s) i 0) [index + 1..<motorCount])\<rparr>)"
      using "1.IH"[OF True inb st] "1.prems" by simp
    have ex: "\<And>a. (\<exists>k. index \<le> k \<and> k < motorCount \<and> ccr (motors s ! k) = Some a) =
                (a = b \<or> (\<exists>k. index + 1 \<le> k \<and> k < motorCount \<and> ccr (motors s ! k) = Some a))"
      using b True
      by (metis Suc_eq_plus1 Suc_leI le_neq_implies_less option.inject Suc_leD le_refl)
    have r: "(\<lambda>a. if (\<exists>k. index + 1 \<le> k \<and> k < motorCount \<and> ccr (motors s ! k) = Some a)
                          then 0 else regs ?s1 a) =
            (\<lambda>a. if (\<exists>k. index \<le> k \<and> k < motorCount \<and> ccr (motors s ! k) = Some a)
                          then 0 else regs s a)"
      by (intro ext) (auto simp: ex)
    have up: "[index..<motorCount] = index # [index + 1..<motorCount]"
      using True by (simp add: upt_conv_Cons)
    have t: "trace ?s1 @ map (\<lambda>i. TimerForceOverflow (tim (motors s ! i)))
                        (filter (\<lambda>i. \<not> overflowed_scan (motors s) i 0) [index + 1..<motorCount]) =
             trace s @ map (\<lambda>i. TimerForceOverflow (tim (motors s ! i)))
                        (filter (\<lambda>i. \<not> overflowed_scan (motors s) i 0) [index..<motorCount])"
      by (simp add: up)
    show ?thesis unfolding step ih r t by simp
  qed
qed

lemma oneshot_loop_not_oob:
  "motorCount \<le> length (motors s) \<Longrightarrow> oneshot_loop index motorCount s \<noteq> Inl OutOfBounds"
proof (induction index motorCount s rule: oneshot_loop.induct)
  case (1 index motorCount s)
  show ?case
  proof (cases "index < motorCount")
    case False
    then show ?thesis by (subst oneshot_loop.simps) simp
  next
    case True
    then have inb: "index < length (motors s)" using "1.prems" by simp
    let ?s0 = "if overflowed_scan (motors s) index 0 then s
               else s\<lparr>trace := trace s @ [TimerForceOverflow (tim (motors s ! index))]\<rparr>"
    show ?thesis
    proof (cases "store_motor_ccr index 0 ?s0")
      case (Inl e)
      then have "e = NullPointer" using inb
        by (auto simp: store_motor_ccr_def split: option.splits if_splits)
      then show ?thesis using True inb Inl by (subst oneshot_loop.simps) simp
    next
      case (Inr s')
      then have "motors s' = motors s"
        by (auto simp: store_motor_ccr_def split: option.splits if_splits)
      then have "oneshot_loop (index + 1) motorCount s' \<noteq> Inl OutOfBounds"
        using "1.IH"[OF True inb Inr] "1.prems" by simp
      then show ?thesis using True inb Inr by (subst oneshot_loop.simps) simp
    qed
  qed
qed

lemma oneshot_loop_fault:
  "length (motors s) < motorCount \<Longrightarrow> index \<le> length (motors s) \<Longrightarrow>
   \<exists>e. oneshot_loop index motorCount s = Inl e"
proof (induction index motorCount s rule: oneshot_loop.induct)
  case (1 index motorCount s)
  show ?case
  proof (cases "index < length (motors s)")
    case False
    then show ?thesis using "1.prems" by (subst oneshot_loop.simps) simp
  next
    case inb: True
    then have True: "index < motorCount" using "1.prems" by simp
    let ?s0 = "if overflowed_scan (motors s) index 0 then s
               else s\<lparr>trace := trace s @ [TimerForceOverflow (tim (motors s ! index))]\<rparr>"
    show ?thesis
    proof (cases "store_motor_ccr index 0 ?s0")
      case (Inl e)
      then show ?thesis using True inb Inl by (subst oneshot_loop.simps) simp
    next
      case (Inr s')
      then have "motors s' = motors s"
        by (auto simp: store_motor_ccr_def split: option.splits if_splits)
      then have "\<exists>e. oneshot_loop (index + 1) motorCount s' = Inl e"
        using "1.IH"[OF True inb Inr] "1.prems" inb by simp
      then show ?thesis using True inb Inr by (subst oneshot_loop.simps) simp
    qed
  qed
qed

lemma oneshot_loop_oob:
  "length (motors s) < motorCount \<Longrightarrow> index \<le> length (motors s) \<Longrightarrow>
   (\<forall>k. index \<le> k \<and> k < length (motors s) \<longrightarrow> ccr (motors s ! k) \<noteq> None) \<Longrightarrow>
   oneshot_loop index motorCount s = Inl OutOfBounds"
proof (induction index motorCount s rule: oneshot_loop.induct)
  case (1 index motorCount s)
  show ?case
  proof (cases "index < length (motors s)")
    case False
    then show ?thesis using "1.prems" by (subst oneshot_loop.simps) simp
  next
    case inb: True
    then have True: "index < motorCount" using "1.prems" by simp
    obtain b where b: "ccr (motors s ! index) = Some b"
      using "1.prems"(3) inb by (cases "ccr (motors s ! index)") auto
    let ?ev = "if overflowed_scan (motors s) index 0 then []
               else [TimerForceOverflow (tim (motors s ! index))]"
    let ?s0 = "if overflowed_scan (motors s) index 0 then s
               else s\<lparr>trace := trace s @ [TimerForceOverflow (tim (motors s ! index))]\<rparr>"
    let ?s1 = "s\<lparr>regs := (regs s)(b := 0), trace := trace s @ ?ev\<rparr>"
    have st: "store_motor_ccr index 0 ?s0 = Inr ?s1"
      using inb b by (simp add: store_motor_ccr_def)
    have "oneshot_loop (index + 1) motorCount ?s1 = Inl OutOfBounds"
      using "1.IH"[OF True inb st] "1.prems" inb by simp
    then show ?thesis using True inb st by (subst oneshot_loop.simps) simp
  qed
qed

lemma nth_in_take: "k < i \<Longrightarrow> i \<le> length ms \<Longrightarrow> ms ! k \<in> set (take i ms)"
proof -
  assume a: "k < i" "i \<le> length ms"
  then have "take i ms ! k \<in> set (take i ms)" by (intro nth_mem) simp
  then show ?thesis using a by simp
qed

lemma scan_first_index:
  "index < length ms \<Longrightarrow>
   overflowed_scan ms index 0 \<longleftrightarrow> tim (ms ! index) \<in> tim ` set (take index ms)"
proof -
  assume inb: "index < length ms"
  have "(\<exists>k. k < index \<and> tim (ms ! k) = tim (ms ! index)) \<longleftrightarrow>
        tim (ms ! index) \<in> tim ` set (take index ms)"
  proof
    assume "\<exists>k. k < index \<and> tim (ms ! k) = tim (ms ! index)"
    then obtain k where k: "k < index" "tim (ms ! k) = tim (ms ! index)" by blast
    have "ms ! k \<in> set (take index ms)"
      using k(1) inb by (simp add: nth_in_take)
    then show "tim (ms ! index) \<in> tim ` set (take index ms)" using k(2) by (metis imageI)
  next
    assume "tim (ms ! index) \<in> tim ` set (take index ms)"
    then obtain p where p: "p \<in> set (take index ms)" "tim (ms ! index) = tim p" by blast
    then obtain k where "k < length (take index ms)" "take index ms ! k = p"
      unfolding in_set_conv_nth by blast
    then have "k < index \<and> tim (ms ! k) = tim (ms ! index)" using p(2) by simp
    then show "\<exists>k. k < index \<and> tim (ms ! k) = tim (ms ! index)" by blast
  qed
  then show ?thesis by (simp add: overflowed_scan_iff)
qed

lemma filter_scan_first_index:
  "n \<le> length ms \<Longrightarrow>
   filter (\<lambda>i. \<not> overflowed_scan ms i 0) [0..<n] =
   filter (\<lambda>i. tim (ms ! i) \<notin> tim ` set (take i ms)) [0..<n]"
  by (rule filter_cong) (auto simp: scan_first_index)

lemma first_index_timers_distinct:
  assumes "n \<le> length ms"
  shows "distinct (first_index_timers ms n)"
proof -
  let ?P = "\<lambda>i. tim (ms ! i) \<notin> tim ` set (take i ms)"
  have "inj_on (\<lambda>i. tim (ms ! i)) (set (filter ?P [0..<n]))"
  proof (rule inj_onI)
    fix i j
    assume i: "i \<in> set (filter ?P [0..<n])" and j: "j \<in> set (filter ?P [0..<n])"
      and eq: "tim (ms ! i) = tim (ms ! j)"
    have il: "i < length ms" and jl: "j < length ms" using i j assms by auto
    have "\<not> i < j"
    proof
      assume "i < j"
      then have "ms ! i \<in> set (take j ms)"
        using jl by (simp add: nth_in_take)
      then have "tim (ms ! j) \<in> tim ` set (take j ms)" using eq by (metis imageI)
      then show False using j by simp
    qed
    moreover have "\<not> j < i"
    proof
      assume "j < i"
      then have "ms ! j \<in> set (take i ms)"
        using il by (simp add: nth_in_take)
      then have "tim (ms ! i) \<in> tim ` set (take i ms)" using eq by (metis imageI)
      then show False using i by simp
    qed
    ultimately show "i = j" by simp
  qed
  then show ?thesis by (simp add: first_index_timers_def distinct_map)
qed

lemma first_index_timers_set:
  assumes "n \<le> length ms"
  shows "set (first_index_timers ms n) = tim ` set (take n ms)"
proof
  show "set (first_index_timers ms n) \<subseteq> tim ` set (take n ms)"
  proof
    fix t assume "t \<in> set (first_index_timers ms n)"
    then obtain i where i: "i < n" "t = tim (ms ! i)"
      by (auto simp: first_index_timers_def)
    then have "ms ! i \<in> set (take n ms)"
      using assms by (simp add: nth_in_take)
    then show "t \<in> tim ` set (take n ms)" using i(2) by blast
  qed
next
  show "tim ` set (take n ms) \<subseteq> set (first_index_timers ms n)"
  proof
    fix t assume "t \<in> tim ` set (take n ms)"
    then obtain p where p: "p \<in> set (take n ms)" "t = tim p" by blast
    then obtain k where k: "k < length (take n ms)" "take n ms ! k = p"
      unfolding in_set_conv_nth by blast
    then have ex: "k < n \<and> tim (ms ! k) = t" using p(2) by simp
    define m where "m = (LEAST k. k < n \<and> tim (ms ! k) = t)"
    have m: "m < n \<and> tim (ms ! m) = t" unfolding m_def using ex by (rule LeastI)
    have least: "\<And>j. j < m \<Longrightarrow> \<not> (j < n \<and> tim (ms ! j) = t)"
      unfolding m_def by (rule not_less_Least)
    have "tim (ms ! m) \<notin> tim ` set (take m ms)"
    proof
      assume "tim (ms ! m) \<in> tim ` set (take m ms)"
      then obtain q where q: "q \<in> set (take m ms)" "tim (ms ! m) = tim q" by blast
      then obtain j where j: "j < length (take m ms)" "take m ms ! j = q"
        unfolding in_set_conv_nth by blast
      then have "j < m" "tim (ms ! j) = t" using q(2) m by simp_all
      then show False using least[of j] m by simp
    qed
    then have "m \<in> set (filter (\<lambda>i. tim (ms ! i) \<notin> tim ` set (take i ms)) [0..<n])"
      using m by simp
    then have "tim (ms ! m) \<in> set (first_index_timers ms n)"
      unfolding first_index_timers_def set_map by (rule imageI)
    then show "t \<in> set (first_index_timers ms n)" using m by simp
  qed
qed

lemma distinct_count_list_01:
  "distinct xs \<Longrightarrow> count_list xs x = (if x \<in> set xs then 1 else 0)"
  by (induction xs) auto

lemma take_ccr_nth:
  "n \<le> length ms \<Longrightarrow> list_all (\<lambda>p. P p) (take n ms) \<longleftrightarrow> (\<forall>k<n. P (ms ! k))"
  by (auto simp: list_all_length)

subsection \<open>The synced completion step\<close>

text \<open>
  When \<open>n\<close> is within the motor capacity and each of the ports \<open>0..n-1\<close> holds a compare
  register, one call of \<^verbatim>\<open>pwmCompleteOneshotMotorUpdate(n)\<close> returns, forces the overflow of
  each timer carried by ports \<open>0..n-1\<close> exactly once, at the first index carrying it and in
  index order, and leaves the compare register of each of those ports at 0.
\<close>

lemma complete_oneshot_one_overflow_per_timer:
  assumes "unat n \<le> MAX_SUPPORTED_MOTORS s"
    and "list_all (\<lambda>p. ccr p \<noteq> None) (take (unat n) (motors s))"
  shows "\<exists>s'. pwmCompleteOneshotMotorUpdate n s = Inr s' \<and>
           trace s' = trace s @ map TimerForceOverflow (first_index_timers (motors s) (unat n)) \<and>
           (\<forall>t. count_list (first_index_timers (motors s) (unat n)) t =
                 (if t \<in> tim ` set (take (unat n) (motors s)) then 1 else 0)) \<and>
           list_all (\<lambda>p. \<forall>a. ccr p = Some a \<longrightarrow> regs s' a = 0) (take (unat n) (motors s)) \<and>
           motors s' = motors s"
proof -
  let ?n = "unat n"
  have le: "?n \<le> length (motors s)" using assms(1) by (simp add: MAX_SUPPORTED_MOTORS_def)
  have nn: "\<forall>k. 0 \<le> k \<and> k < ?n \<longrightarrow> ccr (motors s ! k) \<noteq> None"
    using assms(2) le by (simp add: take_ccr_nth)
  let ?s' = "s\<lparr>regs := (\<lambda>a. if (\<exists>k. 0 \<le> k \<and> k < ?n \<and> ccr (motors s ! k) = Some a)
                          then 0 else regs s a),
            trace := trace s @ map (\<lambda>i. TimerForceOverflow (tim (motors s ! i)))
                        (filter (\<lambda>i. \<not> overflowed_scan (motors s) i 0) [0..<?n])\<rparr>"
  have run: "pwmCompleteOneshotMotorUpdate n s = Inr ?s'"
    unfolding pwmCompleteOneshotMotorUpdate_def by (rule oneshot_loop_eq[OF le nn])
  have tr: "trace ?s' = trace s @ map TimerForceOverflow (first_index_timers (motors s) ?n)"
    by (simp add: first_index_timers_def filter_scan_first_index[OF le] comp_def)
  have cnt: "\<forall>t. count_list (first_index_timers (motors s) ?n) t =
                 (if t \<in> tim ` set (take ?n (motors s)) then 1 else 0)"
    using first_index_timers_distinct[OF le] first_index_timers_set[OF le]
    by (simp add: distinct_count_list_01)
  have zero: "list_all (\<lambda>p. \<forall>a. ccr p = Some a \<longrightarrow> regs ?s' a = 0) (take ?n (motors s))"
    using le by (auto simp: take_ccr_nth)
  show ?thesis using run tr cnt zero by (intro exI[of _ ?s']) simp
qed

text \<open>On the example bank: timers 1, 2, 1, 2 give two overflows, of timer 1 then timer 2.\<close>

lemma complete_oneshot_example_bank:
  "unat (4 :: uint8_t) \<le> MAX_SUPPORTED_MOTORS example_state \<and>
   list_all (\<lambda>p. ccr p \<noteq> None) (take (unat (4 :: uint8_t)) (motors example_state)) \<and>
   (\<exists>s'. pwmCompleteOneshotMotorUpdate 4 example_state = Inr s' \<and>
      trace s' = [TimerForceOverflow 1, TimerForceOverflow 2] \<and>
      regs s' 10 = 0 \<and> regs s' 11 = 0 \<and> regs s' 12 = 0 \<and> regs s' 13 = 0)"
proof -
  have h1: "unat (4 :: uint8_t) \<le> MAX_SUPPORTED_MOTORS example_state"
    by (simp add: MAX_SUPPORTED_MOTORS_def example_state_def)
  have h2: "list_all (\<lambda>p. ccr p \<noteq> None) (take (unat (4 :: uint8_t)) (motors example_state))"
    by (simp add: example_state_def example_port_def)
  have u: "unat (4 :: uint8_t) = Suc (Suc (Suc (Suc 0)))" by simp
  have ft: "first_index_timers (motors example_state) (unat (4 :: uint8_t)) = [1, 2]"
    unfolding u by (simp add: first_index_timers_def example_state_def example_port_def)
  from complete_oneshot_one_overflow_per_timer[OF h1 h2]
  obtain s' where s': "pwmCompleteOneshotMotorUpdate 4 example_state = Inr s'"
    "trace s' = trace example_state @
       map TimerForceOverflow (first_index_timers (motors example_state) (unat (4 :: uint8_t)))"
    "list_all (\<lambda>p. \<forall>a. ccr p = Some a \<longrightarrow> regs s' a = 0) (take (unat (4 :: uint8_t)) (motors example_state))"
    by blast
  have "trace s' = [TimerForceOverflow 1, TimerForceOverflow 2]"
    using s'(2) ft by (simp add: example_state_def)
  moreover have "regs s' 10 = 0 \<and> regs s' 11 = 0 \<and> regs s' 12 = 0 \<and> regs s' 13 = 0"
    using s'(3) by (simp add: example_state_def example_port_def)
  ultimately show ?thesis using h1 h2 s'(1) by blast
qed

subsection \<open>Stopping all pulses\<close>

text \<open>
  Claim C5 as stated speaks of every motor count. The loop does not check the count against
  the capacity: on the example bank of four motors a count of 5 reads outside the array.
\<close>

theorem shutdown_counterexample:
  "MAX_SUPPORTED_MOTORS example_state = 4 \<and>
   pwmShutdownPulsesForAllMotors 5 example_state = Inl OutOfBounds"
proof -
  have m: "MAX_SUPPORTED_MOTORS example_state = 4"
    by (simp add: MAX_SUPPORTED_MOTORS_def example_state_def)
  have "shutdown_loop 0 (unat (5 :: uint8_t)) example_state = Inl OutOfBounds"
    by (rule shutdown_loop_oob) (simp_all add: example_state_def)
  then show ?thesis using m by (simp add: pwmShutdownPulsesForAllMotors_def)
qed

text \<open>
  Claim C5, amended. For a motor count \<open>n\<close> within the capacity and either value \<open>g\<close> of the enable
  flag, \<^verbatim>\<open>pwmShutdownPulsesForAllMotors(n)\<close> returns and sets to 0 the compare register of
  every port among \<open>0..n-1\<close> that has one; no other register, no port, not the flag and not
  the trace change, whatever write function the ports are bound to.
\<close>

theorem shutdown_zeroes_configured_motors:
  assumes "unat n \<le> MAX_SUPPORTED_MOTORS s"
  shows "\<exists>s'. pwmShutdownPulsesForAllMotors n (s\<lparr>pwmMotorsEnabled := g\<rparr>) = Inr s' \<and>
           list_all (\<lambda>p. \<forall>a. ccr p = Some a \<longrightarrow> regs s' a = 0) (take (unat n) (motors s)) \<and>
           (\<forall>a. Some a \<notin> ccr ` set (take (unat n) (motors s)) \<longrightarrow> regs s' a = regs s a) \<and>
           motors s' = motors s \<and> pwmMotorsEnabled s' = g \<and> trace s' = trace s"
proof -
  let ?n = "unat n" and ?s = "s\<lparr>pwmMotorsEnabled := g\<rparr>"
  have le: "?n \<le> length (motors ?s)" using assms by (simp add: MAX_SUPPORTED_MOTORS_def)
  let ?s' = "?s\<lparr>regs := (\<lambda>a. if (\<exists>k. 0 \<le> k \<and> k < ?n \<and> ccr (motors ?s ! k) = Some a)
                          then 0 else regs ?s a)\<rparr>"
  have run: "pwmShutdownPulsesForAllMotors n ?s = Inr ?s'"
    unfolding pwmShutdownPulsesForAllMotors_def by (rule shutdown_loop_eq[OF le])
  have zero: "list_all (\<lambda>p. \<forall>a. ccr p = Some a \<longrightarrow> regs ?s' a = 0) (take ?n (motors s))"
    using le by (auto simp: take_ccr_nth)
  have other: "\<forall>a. Some a \<notin> ccr ` set (take ?n (motors s)) \<longrightarrow> regs ?s' a = regs s a"
  proof (intro allI impI)
    fix a assume a: "Some a \<notin> ccr ` set (take ?n (motors s))"
    have "\<not> (\<exists>k. 0 \<le> k \<and> k < ?n \<and> ccr (motors s ! k) = Some a)"
    proof
      assume "\<exists>k. 0 \<le> k \<and> k < ?n \<and> ccr (motors s ! k) = Some a"
      then obtain k where k: "k < ?n" "ccr (motors s ! k) = Some a" by blast
      have "motors s ! k \<in> set (take ?n (motors s))" using k(1) le by (simp add: nth_in_take)
      then show False using a k(2) by (metis imageI)
    qed
    then show "regs ?s' a = regs s a" by auto
  qed
  show ?thesis using run zero other by (intro exI[of _ ?s']) simp
qed

text \<open>On the example bank with motors disabled.\<close>

theorem shutdown_zeroes_configured_motors_witness:
  "unat (4 :: uint8_t) \<le> MAX_SUPPORTED_MOTORS example_state \<and>
   (\<exists>s'. pwmShutdownPulsesForAllMotors 4 (example_state\<lparr>pwmMotorsEnabled := False\<rparr>) = Inr s' \<and>
      regs s' 10 = 0 \<and> regs s' 11 = 0 \<and> regs s' 12 = 0 \<and> regs s' 13 = 0 \<and> regs s' 20 = 7 \<and>
      pwmMotorsEnabled s' = False)"
proof -
  have h1: "unat (4 :: uint8_t) \<le> MAX_SUPPORTED_MOTORS example_state"
    by (simp add: MAX_SUPPORTED_MOTORS_def example_state_def)
  from shutdown_zeroes_configured_motors[OF h1, of False]
  obtain s' where s': "pwmShutdownPulsesForAllMotors 4 (example_state\<lparr>pwmMotorsEnabled := False\<rparr>) = Inr s'"
    "list_all (\<lambda>p. \<forall>a. ccr p = Some a \<longrightarrow> regs s' a = 0) (take (unat (4 :: uint8_t)) (motors example_state))"
    "\<forall>a. Some a \<notin> ccr ` set (take (unat (4 :: uint8_t)) (motors example_state)) \<longrightarrow>
         regs s' a = regs example_state a"
    "pwmMotorsEnabled s' = False"
    by blast
  have "regs s' 10 = 0 \<and> regs s' 11 = 0 \<and> regs s' 12 = 0 \<and> regs s' 13 = 0"
    using s'(2) by (simp add: example_state_def example_port_def)
  moreover have "Some 20 \<notin> ccr ` set (take (unat (4 :: uint8_t)) (motors example_state))"
    by (simp add: example_state_def example_port_def)
  then have "regs s' 20 = 7" using s'(3) by (simp add: example_state_def)
  ultimately show ?thesis using h1 s'(1) s'(4) by blast
qed

subsection \<open>The motor count is not checked against the capacity\<close>

text \<open>
  Claim C10. \<^verbatim>\<open>pwmShutdownPulsesForAllMotors\<close> and \<^verbatim>\<open>pwmCompleteOneshotMotorUpdate\<close> index the
  motor array at every position below the count. Within the capacity neither leaves the
  array, and the shutdown returns. Beyond the capacity the shutdown reads outside the array,
  and the completion step faults: outside the array if every port has a compare register
  (otherwise through the null pointer it meets first). \<^verbatim>\<open>pwmWriteMotor\<close>, in contrast,
  returns without effect for an index at or beyond the capacity.
\<close>

theorem motor_count_bound_needed:
  "(unat n \<le> MAX_SUPPORTED_MOTORS s \<longrightarrow>
      (\<exists>s'. pwmShutdownPulsesForAllMotors n s = Inr s') \<and>
      pwmCompleteOneshotMotorUpdate n s \<noteq> Inl OutOfBounds) \<and>
   (MAX_SUPPORTED_MOTORS s < unat n \<longrightarrow>
      pwmShutdownPulsesForAllMotors n s = Inl OutOfBounds \<and>
      (\<exists>e. pwmCompleteOneshotMotorUpdate n s = Inl e) \<and>
      (list_all (\<lambda>p. ccr p \<noteq> None) (motors s) \<longrightarrow>
         pwmCompleteOneshotMotorUpdate n s = Inl OutOfBounds)) \<and>
   (MAX_SUPPORTED_MOTORS s \<le> unat i \<longrightarrow> pwmWriteMotor tgt i v s = Inr s)"
proof (intro conjI impI)
  assume le: "unat n \<le> MAX_SUPPORTED_MOTORS s"
  then have le': "unat n \<le> length (motors s)" by (simp add: MAX_SUPPORTED_MOTORS_def)
  show "\<exists>s'. pwmShutdownPulsesForAllMotors n s = Inr s'"
    unfolding pwmShutdownPulsesForAllMotors_def using shutdown_loop_eq[OF le'] by blast
  show "pwmCompleteOneshotMotorUpdate n s \<noteq> Inl OutOfBounds"
    unfolding pwmCompleteOneshotMotorUpdate_def by (rule oneshot_loop_not_oob[OF le'])
next
  assume gt: "MAX_SUPPORTED_MOTORS s < unat n"
  then have gt': "length (motors s) < unat n" by (simp add: MAX_SUPPORTED_MOTORS_def)
  show "pwmShutdownPulsesForAllMotors n s = Inl OutOfBounds"
    unfolding pwmShutdownPulsesForAllMotors_def by (rule shutdown_loop_oob[OF gt']) simp
  show "\<exists>e. pwmCompleteOneshotMotorUpdate n s = Inl e"
    unfolding pwmCompleteOneshotMotorUpdate_def by (rule oneshot_loop_fault[OF gt']) simp
  assume "list_all (\<lambda>p. ccr p \<noteq> None) (motors s)"
  then have "\<forall>k. 0 \<le> k \<and> k < length (motors s) \<longrightarrow> ccr (motors s ! k) \<noteq> None"
    by (simp add: list_all_length)
  then show "pwmCompleteOneshotMotorUpdate n s = Inl OutOfBounds"
    unfolding pwmCompleteOneshotMotorUpdate_def by (intro oneshot_loop_oob[OF gt']) simp_all
next
  assume "MAX_SUPPORTED_MOTORS s \<le> unat i"
  then show "pwmWriteMotor tgt i v s = Inr s" by (simp add: pwmWriteMotor_def)
qed

text \<open>On the example bank of four motors: counts 4 and 5, index 4.\<close>

theorem motor_count_bound_needed_witness:
  "unat (4 :: uint8_t) \<le> MAX_SUPPORTED_MOTORS example_state \<and>
   (\<exists>s'. pwmShutdownPulsesForAllMotors 4 example_state = Inr s') \<and>
   pwmCompleteOneshotMotorUpdate 4 example_state \<noteq> Inl OutOfBounds \<and>
   MAX_SUPPORTED_MOTORS example_state < unat (5 :: uint8_t) \<and>
   list_all (\<lambda>p. ccr p \<noteq> None) (motors example_state) \<and>
   pwmShutdownPulsesForAllMotors 5 example_state = Inl OutOfBounds \<and>
   pwmCompleteOneshotMotorUpdate 5 example_state = Inl OutOfBounds \<and>
   MAX_SUPPORTED_MOTORS example_state \<le> unat (4 :: uint8_t) \<and>
   pwmWriteMotor example_target 4 1500 example_state = Inr example_state"
proof -
  have h1: "unat (4 :: uint8_t) \<le> MAX_SUPPORTED_MOTORS example_state"
    and h2: "MAX_SUPPORTED_MOTORS example_state < unat (5 :: uint8_t)"
    and h3: "MAX_SUPPORTED_MOTORS example_state \<le> unat (4 :: uint8_t)"
    by (simp_all add: MAX_SUPPORTED_MOTORS_def example_state_def)
  have h4: "list_all (\<lambda>p. ccr p \<noteq> None) (motors example_state)"
    by (simp add: example_state_def example_port_def)
  show ?thesis
    using motor_count_bound_needed[of 4 example_state 4 example_target 1500]
          motor_count_bound_needed[of 5 example_state 4 example_target 1500] h1 h2 h3 h4
    by blast
qed

subsection \<open>The brushed encoder\<close>

lemma c_int_id: "- (2 ^ 31) \<le> x \<Longrightarrow> x < 2 ^ 31 \<Longrightarrow> c_int x = x"
  by (simp add: c_int_def)

lemma c_div_nonneg: "0 \<le> a \<Longrightarrow> 0 < b \<Longrightarrow> c_div a b = a div b"
  by (cases "a = 0") (simp_all add: c_div_def)

lemma brushed_compare_domain:
  assumes "1000 \<le> uint val" "uint val \<le> 2000"
  shows "brushed_compare val per = (uint val - 1000) * uint per div 1000"
proof -
  have p: "uint per < 65536" using uint_bounded[of per] by simp
  have p0: "0 \<le> uint per" by simp
  have v: "0 \<le> uint val - 1000" "uint val - 1000 \<le> 1000" using assms by simp_all
  have "(uint val - 1000) * uint per \<le> 1000 * uint per"
    using v(2) p0 by (rule mult_right_mono)
  then have ub: "(uint val - 1000) * uint per < 2 ^ 31" using p by simp
  have lb: "0 \<le> (uint val - 1000) * uint per" using v(1) p0 by simp
  have "c_int ((uint val - 1000) * uint per) = (uint val - 1000) * uint per"
    using lb ub by (intro c_int_id) simp_all
  then show ?thesis using lb by (simp add: brushed_compare_def c_div_nonneg)
qed

text \<open>
  Claim C2, amended. For a command value in \<open>[1000, 2000]\<close>, \<^verbatim>\<open>pwmWriteBrushed\<close> stores
  \<open>(value - 1000) * period / 1000\<close> (integer division) into the compare register of the port;
  for value 1500 and period 1000 that is 500.
\<close>

theorem brushed_write_formula:
  assumes "unat index < MAX_SUPPORTED_MOTORS s"
    and "ccr (motors s ! unat index) = Some a"
    and "1000 \<le> uint val" and "uint val \<le> 2000"
  shows "pwmWriteBrushed index val s =
           Inr (s\<lparr>regs := (regs s)(a := word_of_int
                  ((uint val - 1000) * uint (period (motors s ! unat index)) div 1000))\<rparr>) \<and>
         (val = 1500 \<and> period (motors s ! unat index) = 1000 \<longrightarrow>
            pwmWriteBrushed index val s = Inr (s\<lparr>regs := (regs s)(a := 500)\<rparr>))"
proof -
  have inb: "unat index < length (motors s)" using assms(1) by (simp add: MAX_SUPPORTED_MOTORS_def)
  have run: "pwmWriteBrushed index val s =
           Inr (s\<lparr>regs := (regs s)(a := word_of_int
                  ((uint val - 1000) * uint (period (motors s ! unat index)) div 1000))\<rparr>)"
    using inb assms(2) brushed_compare_domain[OF assms(3,4)]
    by (simp add: pwmWriteBrushed_def store_motor_ccr_def)
  show ?thesis using run by auto
qed

text \<open>Motor 0 of the example bank has period 1000 and register 10.\<close>

theorem brushed_write_formula_witness:
  "unat (0 :: uint8_t) < MAX_SUPPORTED_MOTORS example_state \<and>
   ccr (motors example_state ! unat (0 :: uint8_t)) = Some 10 \<and>
   1000 \<le> uint (1500 :: uint16_t) \<and> uint (1500 :: uint16_t) \<le> 2000 \<and>
   period (motors example_state ! unat (0 :: uint8_t)) = 1000 \<and>
   pwmWriteBrushed 0 1500 example_state = Inr (example_state\<lparr>regs := (regs example_state)(10 := 500)\<rparr>)"
proof -
  have h1: "unat (0 :: uint8_t) < MAX_SUPPORTED_MOTORS example_state"
    by (simp add: MAX_SUPPORTED_MOTORS_def example_state_def)
  have h2: "ccr (motors example_state ! unat (0 :: uint8_t)) = Some 10"
    and h5: "period (motors example_state ! unat (0 :: uint8_t)) = 1000"
    by (simp_all add: example_state_def example_port_def)
  have h3: "1000 \<le> uint (1500 :: uint16_t)" and h4: "uint (1500 :: uint16_t) \<le> 2000" by simp_all
  show ?thesis using brushed_write_formula[OF h1 h2 h3 h4] h1 h2 h3 h4 h5 by simp
qed

text \<open>
  Claim C2 as stated gives 250 for value 1500 and period 1000; the code stores 500.
\<close>

theorem brushed_1500_counterexample:
  "period (motors example_state ! 0) = 1000 \<and>
   pwmWriteBrushed 0 1500 example_state =
     Inr (example_state\<lparr>regs := (regs example_state)(10 := 500)\<rparr>) \<and>
   pwmWriteBrushed 0 1500 example_state \<noteq>
     Inr (example_state\<lparr>regs := (regs example_state)(10 := 250)\<rparr>)"
proof -
  have b: "brushed_compare 1500 1000 = 500"
    by (simp add: brushed_compare_def c_int_def c_div_def)
  have run: "pwmWriteBrushed 0 1500 example_state =
     Inr (example_state\<lparr>regs := (regs example_state)(10 := 500)\<rparr>)"
    by (simp add: pwmWriteBrushed_def store_motor_ccr_def example_state_def example_port_def b)
  have "regs (example_state\<lparr>regs := (regs example_state)(10 := 500)\<rparr>) 10 \<noteq>
        regs (example_state\<lparr>regs := (regs example_state)(10 := 250)\<rparr>) 10"
    by simp
  then have "example_state\<lparr>regs := (regs example_state)(10 := 500)\<rparr> \<noteq>
        example_state\<lparr>regs := (regs example_state)(10 := 250)\<rparr>"
    by metis
  then show ?thesis using run by (simp add: example_state_def example_port_def)
qed

subsection \<open>The enable flag and servo writes\<close>

text \<open>
  Claim C3 as stated has the enable flag gate servo writes. \<^verbatim>\<open>pwmWriteServo\<close> does not read
  \<^verbatim>\<open>pwmMotorsEnabled\<close>: with motors disabled, writing 1500 to servo 0 of the example bank
  changes its register from 7 to 1500.
\<close>

theorem servo_write_gated_counterexample:
  "regs (pwmDisableMotors example_state) 20 = 7 \<and>
   \<not> pwmMotorsEnabled (pwmDisableMotors example_state) \<and>
   regs (pwmWriteServo 0 1500 (pwmDisableMotors example_state)) 20 = 1500"
  by (simp add: pwmWriteServo_def pwmDisableMotors_def MAX_SUPPORTED_SERVOS_def
        example_state_def example_port_def)

text \<open>
  Claim C3, amended. The enable flag gates motor writes only. After \<^verbatim>\<open>pwmDisableMotors\<close>,
  \<^verbatim>\<open>pwmWriteMotor\<close> changes nothing, and after \<^verbatim>\<open>pwmEnableMotors\<close> it acts again as if the flag
  had never been cleared. \<^verbatim>\<open>pwmWriteServo\<close> acts the same with motors disabled as enabled:
  for an index below the servo capacity whose port has a compare register it stores the
  value there, and otherwise it does nothing.
\<close>

theorem servo_write_not_gated:
  "pwmWriteServo i v (pwmDisableMotors s) = pwmDisableMotors (pwmWriteServo i v s) \<and>
   (unat i < MAX_SUPPORTED_SERVOS s \<and> ccr (servos s ! unat i) = Some a \<longrightarrow>
      pwmWriteServo i v (pwmDisableMotors s) = (pwmDisableMotors s)\<lparr>regs := (regs s)(a := ucast v)\<rparr>) \<and>
   (MAX_SUPPORTED_SERVOS s \<le> unat i \<or> ccr (servos s ! unat i) = None \<longrightarrow>
      pwmWriteServo i v (pwmDisableMotors s) = pwmDisableMotors s) \<and>
   pwmWriteMotor tgt i v (pwmDisableMotors s) = Inr (pwmDisableMotors s) \<and>
   pwmWriteMotor tgt i v (pwmEnableMotors (pwmDisableMotors s)) = pwmWriteMotor tgt i v (pwmEnableMotors s)"
  by (auto simp: pwmWriteServo_def pwmDisableMotors_def pwmEnableMotors_def pwmWriteMotor_def
        MAX_SUPPORTED_SERVOS_def MAX_SUPPORTED_MOTORS_def split: option.splits)

text \<open>Servo 0 of the example bank has register 20; there is no servo 1.\<close>

theorem servo_write_not_gated_witness:
  "unat (0 :: uint8_t) < MAX_SUPPORTED_SERVOS example_state \<and>
   ccr (servos example_state ! unat (0 :: uint8_t)) = Some 20 \<and>
   pwmWriteServo 0 1500 (pwmDisableMotors example_state) =
     (pwmDisableMotors example_state)\<lparr>regs := (regs example_state)(20 := 1500)\<rparr> \<and>
   MAX_SUPPORTED_SERVOS example_state \<le> unat (1 :: uint8_t) \<and>
   pwmWriteServo 1 1500 (pwmDisableMotors example_state) = pwmDisableMotors example_state \<and>
   pwmWriteMotor example_target 0 1500 (pwmDisableMotors example_state) =
     Inr (pwmDisableMotors example_state)"
proof -
  have h1: "unat (0 :: uint8_t) < MAX_SUPPORTED_SERVOS example_state"
    and h3: "MAX_SUPPORTED_SERVOS example_state \<le> unat (1 :: uint8_t)"
    by (simp_all add: MAX_SUPPORTED_SERVOS_def example_state_def)
  have h2: "ccr (servos example_state ! unat (0 :: uint8_t)) = Some 20"
    by (simp add: example_state_def example_port_def)
  have u: "(ucast (1500 :: uint16_t) :: 32 word) = 1500" by simp
  have a: "pwmWriteServo 0 1500 (pwmDisableMotors example_state) =
     (pwmDisableMotors example_state)\<lparr>regs := (regs example_state)(20 := 1500)\<rparr>"
    using servo_write_not_gated[of 0 1500 example_state 20 example_target] h1 h2 unfolding u
    by blast
  have b: "pwmWriteServo 1 1500 (pwmDisableMotors example_state) = pwmDisableMotors example_state"
    using servo_write_not_gated[of 1 1500 example_state 20 example_target] h3 by blast
  have c: "pwmWriteMotor example_target 0 1500 (pwmDisableMotors example_state) =
     Inr (pwmDisableMotors example_state)"
    using servo_write_not_gated[of 0 1500 example_state 20 example_target] by blast
  show ?thesis using h1 h2 h3 a b c by blast
qed

subsection \<open>Writing one motor\<close>

lemma call_analog_write:
  assumes "unat i < length (motors s)" and "ccr (motors s ! unat i) = Some a"
    and "protocol_compare tgt f (period (motors s ! unat i)) v = Some c"
  shows "call_pwmWritePtr f tgt i v s = Inr (s\<lparr>regs := (regs s)(a := c)\<rparr>)"
  using assms
  by (cases f)
     (auto simp: pwmWriteBrushed_def pwmWriteStandard_def pwmWriteOneShot125_def
        pwmWriteOneShot42_def pwmWriteMultiShot_def store_motor_ccr_def)

text \<open>
  Claim C4. In a state whose ports satisfy \<open>port_ok\<close>, \<^verbatim>\<open>pwmWriteMotor(i, v)\<close> returns the
  state unchanged when \<open>i\<close> is at or beyond the motor capacity, or port \<open>i\<close> is disabled, or
  the enable flag is cleared. Otherwise port \<open>i\<close> has a write function bound; if it is one of
  the five analog ones, the call stores that protocol's value for \<open>v\<close> into the compare
  register of port \<open>i\<close> and changes nothing else; if it is \<^verbatim>\<open>pwmWriteDigital\<close>, the call is
  handed to the Dshot driver and nothing in this file's state changes but the trace.
\<close>

theorem write_motor_frame:
  assumes "list_all port_ok (motors s)"
  shows "(MAX_SUPPORTED_MOTORS s \<le> unat i \<or> \<not> enabled (motors s ! unat i) \<or> \<not> pwmMotorsEnabled s \<longrightarrow>
            pwmWriteMotor tgt i v s = Inr s) \<and>
         (unat i < MAX_SUPPORTED_MOTORS s \<and> enabled (motors s ! unat i) \<and> pwmMotorsEnabled s \<longrightarrow>
            (\<exists>f. pwmWritePtr (motors s ! unat i) = Some f \<and>
               (f \<noteq> WriteDigital \<longrightarrow>
                  (\<exists>a c. ccr (motors s ! unat i) = Some a \<and>
                     protocol_compare tgt f (period (motors s ! unat i)) v = Some c \<and>
                     pwmWriteMotor tgt i v s = Inr (s\<lparr>regs := (regs s)(a := c)\<rparr>))) \<and>
               (f = WriteDigital \<longrightarrow>
                  pwmWriteMotor tgt i v s = Inr (s\<lparr>trace := trace s @ [PwmWriteDigital i v]\<rparr>))))"
proof (intro conjI impI)
  assume noop: "MAX_SUPPORTED_MOTORS s \<le> unat i \<or> \<not> enabled (motors s ! unat i) \<or> \<not> pwmMotorsEnabled s"
  show "pwmWriteMotor tgt i v s = Inr s"
  proof (cases "unat i < MAX_SUPPORTED_MOTORS s \<and> pwmMotorsEnabled s")
    case False
    then show ?thesis by (auto simp: pwmWriteMotor_def)
  next
    case True
    then have dis: "\<not> enabled (motors s ! unat i)" using noop by auto
    have "port_ok (motors s ! unat i)"
      using assms True by (simp add: list_all_length MAX_SUPPORTED_MOTORS_def)
    then have "pwmWritePtr (motors s ! unat i) = None"
      using dis by (auto simp: port_ok_def split: option.splits pwmWriteFuncPtr.splits)
    then show ?thesis by (simp add: pwmWriteMotor_def)
  qed
next
  assume act: "unat i < MAX_SUPPORTED_MOTORS s \<and> enabled (motors s ! unat i) \<and> pwmMotorsEnabled s"
  then have inb: "unat i < length (motors s)" by (simp add: MAX_SUPPORTED_MOTORS_def)
  have ok: "port_ok (motors s ! unat i)" using assms inb by (simp add: list_all_length)
  obtain f where f: "pwmWritePtr (motors s ! unat i) = Some f"
    using ok act by (cases "pwmWritePtr (motors s ! unat i)") (auto simp: port_ok_def)
  have run: "pwmWriteMotor tgt i v s = call_pwmWritePtr f tgt i v s"
    using act f by (simp add: pwmWriteMotor_def)
  have analog: "\<exists>a c. ccr (motors s ! unat i) = Some a \<and>
                     protocol_compare tgt f (period (motors s ! unat i)) v = Some c \<and>
                     pwmWriteMotor tgt i v s = Inr (s\<lparr>regs := (regs s)(a := c)\<rparr>)"
    if nd: "f \<noteq> WriteDigital"
  proof -
    obtain a where a: "ccr (motors s ! unat i) = Some a"
      using ok f nd by (cases f) (auto simp: port_ok_def)
    obtain c :: "'a word" where c: "protocol_compare tgt f (period (motors s ! unat i)) v = Some c"
      using nd by (cases f) auto
    show ?thesis using a c run call_analog_write[OF inb a c] by simp
  qed
  have digital: "pwmWriteMotor tgt i v s = Inr (s\<lparr>trace := trace s @ [PwmWriteDigital i v]\<rparr>)"
    if "f = WriteDigital"
    using that run by (simp add: pwmWriteDigital_def)
  show "\<exists>f. pwmWritePtr (motors s ! unat i) = Some f \<and>
               (f \<noteq> WriteDigital \<longrightarrow>
                  (\<exists>a c. ccr (motors s ! unat i) = Some a \<and>
                     protocol_compare tgt f (period (motors s ! unat i)) v = Some c \<and>
                     pwmWriteMotor tgt i v s = Inr (s\<lparr>regs := (regs s)(a := c)\<rparr>))) \<and>
               (f = WriteDigital \<longrightarrow>
                  pwmWriteMotor tgt i v s = Inr (s\<lparr>trace := trace s @ [PwmWriteDigital i v]\<rparr>))"
    using f analog digital by blast
qed

text \<open>On the example bank: motor 0 written, index 4 beyond the capacity, motors disabled.\<close>

theorem write_motor_frame_witness:
  "list_all port_ok (motors example_state) \<and>
   unat (0 :: uint8_t) < MAX_SUPPORTED_MOTORS example_state \<and>
   enabled (motors example_state ! unat (0 :: uint8_t)) \<and> pwmMotorsEnabled example_state \<and>
   pwmWriteMotor example_target 0 1500 example_state =
     Inr (example_state\<lparr>regs := (regs example_state)(10 := 500)\<rparr>) \<and>
   MAX_SUPPORTED_MOTORS example_state \<le> unat (4 :: uint8_t) \<and>
   pwmWriteMotor example_target 4 1500 example_state = Inr example_state \<and>
   list_all port_ok (motors (pwmDisableMotors example_state)) \<and>
   \<not> pwmMotorsEnabled (pwmDisableMotors example_state) \<and>
   pwmWriteMotor example_target 0 1500 (pwmDisableMotors example_state) =
     Inr (pwmDisableMotors example_state)"
proof -
  have ok: "list_all port_ok (motors example_state)"
    by (simp add: example_state_def example_port_def port_ok_def)
  have ok': "list_all port_ok (motors (pwmDisableMotors example_state))"
    by (simp add: example_state_def example_port_def port_ok_def pwmDisableMotors_def)
  have h1: "unat (0 :: uint8_t) < MAX_SUPPORTED_MOTORS example_state"
    and h2: "MAX_SUPPORTED_MOTORS example_state \<le> unat (4 :: uint8_t)"
    by (simp_all add: MAX_SUPPORTED_MOTORS_def example_state_def)
  have h3: "enabled (motors example_state ! unat (0 :: uint8_t))"
    and h4: "pwmMotorsEnabled example_state"
    and h5: "\<not> pwmMotorsEnabled (pwmDisableMotors example_state)"
    and p: "pwmWritePtr (motors example_state ! unat (0 :: uint8_t)) = Some WriteBrushed"
    and cc: "ccr (motors example_state ! unat (0 :: uint8_t)) = Some 10"
    and per: "period (motors example_state ! unat (0 :: uint8_t)) = 1000"
    by (simp_all add: example_state_def example_port_def pwmDisableMotors_def)
  have b: "brushed_compare 1500 1000 = 500"
    by (simp add: brushed_compare_def c_int_def c_div_def)
  from write_motor_frame[OF ok, of 0 example_target 1500] h1 h3 h4
  obtain f where f: "pwmWritePtr (motors example_state ! unat (0 :: uint8_t)) = Some f"
    "f \<noteq> WriteDigital \<longrightarrow>
       (\<exists>a c. ccr (motors example_state ! unat (0 :: uint8_t)) = Some a \<and>
          protocol_compare example_target f (period (motors example_state ! unat (0 :: uint8_t))) 1500 = Some c \<and>
          pwmWriteMotor example_target 0 1500 example_state =
            Inr (example_state\<lparr>regs := (regs example_state)(a := c)\<rparr>))"
    by blast
  have "f = WriteBrushed" using f(1) p by simp
  then have a: "pwmWriteMotor example_target 0 1500 example_state =
     Inr (example_state\<lparr>regs := (regs example_state)(10 := 500)\<rparr>)"
    using f(2) cc per b by auto
  have c: "pwmWriteMotor example_target 4 1500 example_state = Inr example_state"
    using write_motor_frame[OF ok, of 4 example_target 1500] h2 by blast
  have d: "pwmWriteMotor example_target 0 1500 (pwmDisableMotors example_state) =
     Inr (pwmDisableMotors example_state)"
    using write_motor_frame[OF ok', of 0 example_target 1500] h5 by blast
  show ?thesis using ok ok' h1 h2 h3 h4 h5 a c d by blast
qed

subsection \<open>Initialisation\<close>

lemma port_all_fields:
  "(p :: pwmOutputPort_t)\<lparr>io := a, pwmWritePtr := b, ccr := c, period := d, tim := e, enabled := f\<rparr> =
   \<lparr>ccr = c, tim = e, period = d, pwmWritePtr = b, enabled = f, io = a\<rparr>"
  by (cases p) simp

lemma list_all_update:
  "list_all P xs \<Longrightarrow> P x \<Longrightarrow> list_all P (xs[i := x])"
proof -
  assume a: "list_all P xs" "P x"
  have "set (xs[i := x]) \<subseteq> insert x (set xs)" by (rule set_update_subset_insert)
  then show ?thesis using a by (auto simp: list_all_iff)
qed

lemma motorInit_slot_total:
  assumes "motorPwmRate motorConfig \<noteq> 0 \<or> \<not> l_useUnsyncedPwm l \<or> isDigital l"
    and "isDigital l \<or> (\<exists>f. l_pwmWritePtr l = Some f \<and> f \<noteq> WriteDigital)"
  shows "\<exists>s1. motorInit_slot tgt hal motorConfig l i tag hw s = Inr s1 \<and>
           pwmCompleteWritePtr s1 = pwmCompleteWritePtr s \<and>
           (list_all port_ok (motors s) \<longrightarrow> list_all port_ok (motors s1))"
proof (cases "isDigital l")
  case True
  have "port_ok ((motors s ! i)\<lparr>pwmWritePtr := Some WriteDigital, enabled := True\<rparr>)"
    by (simp add: port_ok_def)
  then show ?thesis using True by (simp add: motorInit_slot_def list_all_update)
next
  case nd: False
  then obtain f where f: "l_pwmWritePtr l = Some f" "f \<noteq> WriteDigital" using assms(2) by blast
  have ok: "port_ok \<lparr>ccr = Some c, tim = t, period = p, pwmWritePtr = Some f, enabled = True, io = a\<rparr>"
    for c t p a
    using f(2) by (cases f) (simp_all add: port_ok_def)
  show ?thesis
  proof (cases "l_useUnsyncedPwm l")
    case True
    then have "motorPwmRate motorConfig \<noteq> 0" using assms(1) nd by simp
    then show ?thesis using nd True f(1)
      by (simp add: motorInit_slot_def pwmOutConfig_def Let_def port_all_fields ok list_all_update)
  next
    case False
    then show ?thesis using nd f(1)
      by (simp add: motorInit_slot_def pwmOutConfig_def Let_def port_all_fields ok list_all_update)
  qed
qed

lemma switch_small_clock:
  fixes c :: nat
  assumes "c \<le> 255"
  shows "c mod 2 ^ 32 = c" and "c * 1000000 mod 2 ^ 32 = c * 1000000"
proof -
  show "c mod 2 ^ 32 = c" using assms by simp
  have "c * 1000000 \<le> 255 * 1000000" using assms by simp
  then show "c * 1000000 mod 2 ^ 32 = c * 1000000" by simp
qed

lemma motorInit_slot_spec:
  assumes "motorPwmRate motorConfig \<noteq> 0 \<or> resync_required motorConfig"
    and "spec_is_digital (motorPwmProtocol motorConfig) \<or>
         spec_clock_mhz tgt (motorPwmProtocol motorConfig) \<le> 255"
    and "l = motorInit_switch tgt (motorPwmProtocol motorConfig) (useUnsyncedPwm motorConfig) idlePulse"
  shows "\<exists>s1. motorInit_slot tgt hal motorConfig l i tag hw s = Inr s1 \<and>
           motors s1 = (motors s)[i := spec_port tgt hal motorConfig tag hw (motors s ! i)] \<and>
           regs s1 = (if spec_is_digital (motorPwmProtocol motorConfig) then regs s
                      else (regs s)(timerChCCR hal hw := 0)) \<and>
           trace s1 = trace s @ spec_calls tgt hal motorConfig idlePulse i tag hw \<and>
           servos s1 = servos s \<and> pwmCompleteWritePtr s1 = pwmCompleteWritePtr s \<and>
           pwmMotorsEnabled s1 = pwmMotorsEnabled s"
  unfolding assms(3) using assms(1,2)
  by (cases "motorPwmProtocol motorConfig"; cases "useUnsyncedPwm motorConfig")
     (simp_all add: motorInit_slot_def pwmOutConfig_def Let_def port_all_fields spec_port_def
        spec_calls_def spec_period_def spec_idle_def spec_free_running_def resync_required_def
        switch_small_clock)

lemma motorInit_loop_spec:
  assumes "motorPwmRate motorConfig \<noteq> 0 \<or> resync_required motorConfig"
    and "spec_is_digital (motorPwmProtocol motorConfig) \<or>
         spec_clock_mhz tgt (motorPwmProtocol motorConfig) \<le> 255"
    and "l = motorInit_switch tgt (motorPwmProtocol motorConfig) (useUnsyncedPwm motorConfig) idlePulse"
    and "i \<le> K" and "K \<le> length (motors s)" and "K \<le> N"
    and "\<forall>j. i \<le> j \<and> j < K \<longrightarrow>
           ioTags motorConfig j \<noteq> 0 \<and> timerGetByTag hal (ioTags motorConfig j) \<noteq> None"
    and "K < length (motors s) \<and> K < N \<longrightarrow>
           ioTags motorConfig K = 0 \<or> timerGetByTag hal (ioTags motorConfig K) = None"
  shows "\<exists>s'. motorInit_loop tgt hal motorConfig l i N s = Inr s' \<and>
           length (motors s') = length (motors s) \<and>
           (\<forall>j<length (motors s). motors s' ! j =
              (if i \<le> j \<and> j < K
               then spec_port tgt hal motorConfig (ioTags motorConfig j)
                      (the (timerGetByTag hal (ioTags motorConfig j))) (motors s ! j)
               else motors s ! j)) \<and>
           regs s' = (\<lambda>a. if \<not> spec_is_digital (motorPwmProtocol motorConfig) \<and>
                             (\<exists>j. i \<le> j \<and> j < K \<and>
                                  a = timerChCCR hal (the (timerGetByTag hal (ioTags motorConfig j))))
                           then 0 else regs s a) \<and>
           trace s' = trace s @
             concat (map (\<lambda>j. spec_calls tgt hal motorConfig idlePulse j (ioTags motorConfig j)
                                 (the (timerGetByTag hal (ioTags motorConfig j)))) [i..<K]) \<and>
           servos s' = servos s \<and> pwmCompleteWritePtr s' = pwmCompleteWritePtr s \<and>
           pwmMotorsEnabled s' = pwmMotorsEnabled s"
  using assms
proof (induction tgt hal motorConfig l i N s rule: motorInit_loop.induct)
  case (1 tgt hal motorConfig l i N s)
  show ?case
  proof (cases "i < K")
    case False
    then have iK: "i = K" using "1.prems"(4) by simp
    have stop: "motorInit_loop tgt hal motorConfig l i N s = Inr s"
    proof (cases "K < length (motors s) \<and> K < N")
      case True
      then show ?thesis using "1.prems"(8) iK
        by (subst motorInit_loop.simps) (auto simp: MAX_SUPPORTED_MOTORS_def)
    next
      case False
      then show ?thesis using iK
        by (subst motorInit_loop.simps) (auto simp: MAX_SUPPORTED_MOTORS_def)
    qed
    have "(\<lambda>a. if \<not> spec_is_digital (motorPwmProtocol motorConfig) \<and>
                             (\<exists>j. i \<le> j \<and> j < K \<and>
                                  a = timerChCCR hal (the (timerGetByTag hal (ioTags motorConfig j))))
                           then 0 else regs s a) = regs s"
      using iK by (intro ext) auto
    then show ?thesis using stop iK by auto
  next
    case True
    then have inb: "i < MAX_SUPPORTED_MOTORS s \<and> i < N"
      using "1.prems"(5,6) by (simp add: MAX_SUPPORTED_MOTORS_def)
    have tag: "ioTags motorConfig i \<noteq> 0" using "1.prems"(7) True by simp
    obtain hw where hw: "timerGetByTag hal (ioTags motorConfig i) = Some hw"
      using "1.prems"(7) True by (cases "timerGetByTag hal (ioTags motorConfig i)") auto
    obtain s1 where s1: "motorInit_slot tgt hal motorConfig l i (ioTags motorConfig i) hw s = Inr s1"
      "motors s1 = (motors s)[i := spec_port tgt hal motorConfig (ioTags motorConfig i) hw (motors s ! i)]"
      "regs s1 = (if spec_is_digital (motorPwmProtocol motorConfig) then regs s
                  else (regs s)(timerChCCR hal hw := 0))"
      "trace s1 = trace s @ spec_calls tgt hal motorConfig idlePulse i (ioTags motorConfig i) hw"
      "servos s1 = servos s" "pwmCompleteWritePtr s1 = pwmCompleteWritePtr s"
      "pwmMotorsEnabled s1 = pwmMotorsEnabled s"
      using motorInit_slot_spec[OF "1.prems"(1,2,3)] by blast
    have len1: "length (motors s1) = length (motors s)" using s1(2) by simp
    have step: "motorInit_loop tgt hal motorConfig l i N s =
                motorInit_loop tgt hal motorConfig l (i + 1) N s1"
      using inb tag hw s1(1) by (subst motorInit_loop.simps) simp
    have p2: "i + 1 \<le> K" using True by simp
    have p3: "K \<le> length (motors s1)" using "1.prems"(5) len1 by simp
    have p5: "\<forall>j. i + 1 \<le> j \<and> j < K \<longrightarrow>
           ioTags motorConfig j \<noteq> 0 \<and> timerGetByTag hal (ioTags motorConfig j) \<noteq> None"
      using "1.prems"(7) by simp
    have p6: "K < length (motors s1) \<and> K < N \<longrightarrow>
           ioTags motorConfig K = 0 \<or> timerGetByTag hal (ioTags motorConfig K) = None"
      using "1.prems"(8) len1 by simp
    obtain s' where s': "motorInit_loop tgt hal motorConfig l (i + 1) N s1 = Inr s'"
      "length (motors s') = length (motors s1)"
      "\<forall>j<length (motors s1). motors s' ! j =
              (if i + 1 \<le> j \<and> j < K
               then spec_port tgt hal motorConfig (ioTags motorConfig j)
                      (the (timerGetByTag hal (ioTags motorConfig j))) (motors s1 ! j)
               else motors s1 ! j)"
      "regs s' = (\<lambda>a. if \<not> spec_is_digital (motorPwmProtocol motorConfig) \<and>
                             (\<exists>j. i + 1 \<le> j \<and> j < K \<and>
                                  a = timerChCCR hal (the (timerGetByTag hal (ioTags motorConfig j))))
                           then 0 else regs s1 a)"
      "trace s' = trace s1 @
             concat (map (\<lambda>j. spec_calls tgt hal motorConfig idlePulse j (ioTags motorConfig j)
                                 (the (timerGetByTag hal (ioTags motorConfig j)))) [i + 1..<K])"
      "servos s' = servos s1" "pwmCompleteWritePtr s' = pwmCompleteWritePtr s1"
      "pwmMotorsEnabled s' = pwmMotorsEnabled s1"
      using "1.IH"[OF inb tag hw s1(1) "1.prems"(1,2,3) p2 p3 "1.prems"(6) p5 p6] by blast
    have ports: "\<forall>j<length (motors s). motors s' ! j =
              (if i \<le> j \<and> j < K
               then spec_port tgt hal motorConfig (ioTags motorConfig j)
                      (the (timerGetByTag hal (ioTags motorConfig j))) (motors s ! j)
               else motors s ! j)"
    proof (intro allI impI)
      fix j assume j: "j < length (motors s)"
      show "motors s' ! j =
              (if i \<le> j \<and> j < K
               then spec_port tgt hal motorConfig (ioTags motorConfig j)
                      (the (timerGetByTag hal (ioTags motorConfig j))) (motors s ! j)
               else motors s ! j)"
      proof (cases "j = i")
        case True
        then show ?thesis using s'(3) s1(2) j len1 hw \<open>i < K\<close> by simp
      next
        case False
        then show ?thesis using s'(3) s1(2) j len1 by auto
      qed
    qed
    have ex: "\<And>a. (\<exists>j. i \<le> j \<and> j < K \<and>
                     a = timerChCCR hal (the (timerGetByTag hal (ioTags motorConfig j)))) =
                (a = timerChCCR hal hw \<or>
                 (\<exists>j. i + 1 \<le> j \<and> j < K \<and>
                     a = timerChCCR hal (the (timerGetByTag hal (ioTags motorConfig j)))))"
    proof -
      fix a
      show "(\<exists>j. i \<le> j \<and> j < K \<and>
                     a = timerChCCR hal (the (timerGetByTag hal (ioTags motorConfig j)))) =
                (a = timerChCCR hal hw \<or>
                 (\<exists>j. i + 1 \<le> j \<and> j < K \<and>
                     a = timerChCCR hal (the (timerGetByTag hal (ioTags motorConfig j)))))"
      proof
        assume "\<exists>j. i \<le> j \<and> j < K \<and>
                     a = timerChCCR hal (the (timerGetByTag hal (ioTags motorConfig j)))"
        then obtain j where j: "i \<le> j" "j < K"
          "a = timerChCCR hal (the (timerGetByTag hal (ioTags motorConfig j)))" by blast
        show "a = timerChCCR hal hw \<or>
                 (\<exists>j. i + 1 \<le> j \<and> j < K \<and>
                     a = timerChCCR hal (the (timerGetByTag hal (ioTags motorConfig j))))"
        proof (cases "j = i")
          case True
          then show ?thesis using j(3) hw by simp
        next
          case False
          then have "i + 1 \<le> j" using j(1) by simp
          then show ?thesis using j(2,3) by blast
        qed
      next
        assume "a = timerChCCR hal hw \<or>
                 (\<exists>j. i + 1 \<le> j \<and> j < K \<and>
                     a = timerChCCR hal (the (timerGetByTag hal (ioTags motorConfig j))))"
        then show "\<exists>j. i \<le> j \<and> j < K \<and>
                     a = timerChCCR hal (the (timerGetByTag hal (ioTags motorConfig j)))"
        proof
          assume "a = timerChCCR hal hw"
          then show ?thesis using hw \<open>i < K\<close> by (intro exI[of _ i]) simp
        next
          assume "\<exists>j. i + 1 \<le> j \<and> j < K \<and>
                     a = timerChCCR hal (the (timerGetByTag hal (ioTags motorConfig j)))"
          then obtain j where "i + 1 \<le> j" "j < K"
            "a = timerChCCR hal (the (timerGetByTag hal (ioTags motorConfig j)))" by blast
          then show ?thesis by (intro exI[of _ j]) simp
        qed
      qed
    qed
    have rg: "regs s' = (\<lambda>a. if \<not> spec_is_digital (motorPwmProtocol motorConfig) \<and>
                             (\<exists>j. i \<le> j \<and> j < K \<and>
                                  a = timerChCCR hal (the (timerGetByTag hal (ioTags motorConfig j))))
                           then 0 else regs s a)"
      unfolding s'(4) s1(3) by (intro ext) (auto simp: ex)
    have "[i..<K] = i # [i + 1..<K]" using True by (simp add: upt_conv_Cons)
    then have tr: "trace s' = trace s @
             concat (map (\<lambda>j. spec_calls tgt hal motorConfig idlePulse j (ioTags motorConfig j)
                                 (the (timerGetByTag hal (ioTags motorConfig j)))) [i..<K])"
      using s'(5) s1(4) hw by simp
    show ?thesis
      using step s'(1,2,6,7,8) s1(5,6,7) len1 ports rg tr by simp
  qed
qed

lemma switch_rate_cond:
  "motorPwmRate motorConfig \<noteq> 0 \<or> resync_required motorConfig \<Longrightarrow>
   motorPwmRate motorConfig \<noteq> 0 \<or>
   \<not> l_useUnsyncedPwm (motorInit_switch tgt (motorPwmProtocol motorConfig)
                          (useUnsyncedPwm motorConfig) idlePulse) \<or>
   isDigital (motorInit_switch tgt (motorPwmProtocol motorConfig)
                (useUnsyncedPwm motorConfig) idlePulse)"
  by (cases "motorPwmProtocol motorConfig") (auto simp: resync_required_def)

lemma switch_complete_ptr:
  "motorInit_complete_ptr (motorInit_switch tgt (motorPwmProtocol motorConfig)
       (useUnsyncedPwm motorConfig) idlePulse) None \<noteq> None \<longleftrightarrow>
   resync_required motorConfig"
  by (cases "motorPwmProtocol motorConfig")
     (auto simp: resync_required_def motorInit_complete_ptr_def)

lemma switch_write_ptr:
  "isDigital (motorInit_switch tgt protocol unsynced idlePulse) \<or>
   (\<exists>f. l_pwmWritePtr (motorInit_switch tgt protocol unsynced idlePulse) = Some f \<and> f \<noteq> WriteDigital)"
  by (cases protocol) auto

lemma motorInit_loop_total:
  assumes "motorPwmRate motorConfig \<noteq> 0 \<or> \<not> l_useUnsyncedPwm l \<or> isDigital l"
    and "isDigital l \<or> (\<exists>f. l_pwmWritePtr l = Some f \<and> f \<noteq> WriteDigital)"
  shows "\<exists>s'. motorInit_loop tgt hal motorConfig l i N s = Inr s' \<and>
           pwmCompleteWritePtr s' = pwmCompleteWritePtr s \<and>
           (list_all port_ok (motors s) \<longrightarrow> list_all port_ok (motors s'))"
  using assms
proof (induction tgt hal motorConfig l i N s rule: motorInit_loop.induct)
  case (1 tgt hal motorConfig l i N s)
  show ?case
  proof (cases "i < MAX_SUPPORTED_MOTORS s \<and> i < N \<and> ioTags motorConfig i \<noteq> 0 \<and>
                timerGetByTag hal (ioTags motorConfig i) \<noteq> None")
    case False
    then have "motorInit_loop tgt hal motorConfig l i N s = Inr s"
      by (subst motorInit_loop.simps) (auto split: option.splits)
    then show ?thesis by simp
  next
    case True
    then have inb: "i < MAX_SUPPORTED_MOTORS s \<and> i < N" and tag: "ioTags motorConfig i \<noteq> 0"
      by simp_all
    obtain hw where hw: "timerGetByTag hal (ioTags motorConfig i) = Some hw"
      using True by (cases "timerGetByTag hal (ioTags motorConfig i)") auto
    obtain s1 where s1: "motorInit_slot tgt hal motorConfig l i (ioTags motorConfig i) hw s = Inr s1"
      "pwmCompleteWritePtr s1 = pwmCompleteWritePtr s"
      "list_all port_ok (motors s) \<longrightarrow> list_all port_ok (motors s1)"
      using motorInit_slot_total[OF "1.prems"(1,2)] by blast
    have step: "motorInit_loop tgt hal motorConfig l i N s =
                motorInit_loop tgt hal motorConfig l (i + 1) N s1"
      using inb tag hw s1(1) by (subst motorInit_loop.simps) simp
    obtain s' where s': "motorInit_loop tgt hal motorConfig l (i + 1) N s1 = Inr s'"
      "pwmCompleteWritePtr s' = pwmCompleteWritePtr s1"
      "list_all port_ok (motors s1) \<longrightarrow> list_all port_ok (motors s')"
      using "1.IH"[OF inb tag hw s1(1) "1.prems"] by blast
    show ?thesis using step s' s1(2,3) by auto
  qed
qed

lemma motorInit_port_ok:
  assumes "list_all port_ok (motors s)" and "motorInit tgt hal motorConfig idlePulse n s = Inr s'"
  shows "list_all port_ok (motors s')"
proof -
  let ?l = "motorInit_switch tgt (motorPwmProtocol motorConfig) (useUnsyncedPwm motorConfig) idlePulse"
  let ?s0 = "s\<lparr>pwmCompleteWritePtr := motorInit_complete_ptr ?l (pwmCompleteWritePtr s)\<rparr>"
  have run: "motorInit_loop tgt hal motorConfig ?l 0 (unat n) ?s0 = Inr s'"
    using assms(2) by (simp add: motorInit_def Let_def)
  show ?thesis
  proof (cases "motorPwmRate motorConfig \<noteq> 0 \<or> \<not> l_useUnsyncedPwm ?l \<or> isDigital ?l")
    case True
    from motorInit_loop_total[OF True switch_write_ptr, of tgt hal 0 "unat n" ?s0]
    show ?thesis using run assms(1) by auto
  next
    case False
    then have z: "motorPwmRate motorConfig = 0" "l_useUnsyncedPwm ?l" "\<not> isDigital ?l" by simp_all
    have "\<And>i N (t :: 'a pwm_state). list_all port_ok (motors t) \<Longrightarrow>
            motorInit_loop tgt hal motorConfig ?l i N t = Inr s' \<Longrightarrow> list_all port_ok (motors s')"
    proof -
      fix i N and t :: "'a pwm_state"
      assume ok: "list_all port_ok (motors t)"
        and r: "motorInit_loop tgt hal motorConfig ?l i N t = Inr s'"
      have "motorInit_slot tgt hal motorConfig ?l i tag hw t = Inl DivideByZero" for tag hw
        using z by (simp add: motorInit_slot_def Let_def)
      then have "s' = t" using r
        by (subst (asm) motorInit_loop.simps) (auto split: if_splits option.splits)
      then show "list_all port_ok (motors s')" using ok by simp
    qed
    from this[of ?s0 0 "unat n"] show ?thesis using run assms(1) by simp
  qed
qed

lemma initial_state_port_ok: "list_all port_ok (motors (initial_state nm ns rg))"
  by (simp add: initial_state_def zero_port_def port_ok_def list_all_iff)

text \<open>
  Claim C6. One \<^verbatim>\<open>motorInit\<close> from the state at program start returns (the rate being
  nonzero wherever the code divides by it) and leaves \<^verbatim>\<open>pwmCompleteWritePtr\<close> non-null exactly
  when the configuration needs resynchronisation; \<^verbatim>\<open>pwmIsSynced\<close> returns that.
\<close>

theorem sync_binding_after_init:
  assumes "motorPwmRate motorConfig \<noteq> 0 \<or> resync_required motorConfig"
  shows "\<exists>s' :: 'w::len pwm_state.
           motorInit tgt hal motorConfig idlePulse n (initial_state nm ns rg) = Inr s' \<and>
           (pwmCompleteWritePtr s' \<noteq> None \<longleftrightarrow> resync_required motorConfig) \<and>
           pwmIsSynced s' = resync_required motorConfig"
proof -
  let ?l = "motorInit_switch tgt (motorPwmProtocol motorConfig) (useUnsyncedPwm motorConfig) idlePulse"
  let ?s0 = "(initial_state nm ns rg :: 'w pwm_state)\<lparr>pwmCompleteWritePtr := motorInit_complete_ptr ?l None\<rparr>"
  from motorInit_loop_total[OF switch_rate_cond[OF assms] switch_write_ptr, of tgt hal tgt idlePulse 0 "unat n" ?s0]
  obtain s' where s': "motorInit_loop tgt hal motorConfig ?l 0 (unat n) ?s0 = Inr s'"
    "pwmCompleteWritePtr s' = pwmCompleteWritePtr ?s0"
    by blast
  have run: "motorInit tgt hal motorConfig idlePulse n (initial_state nm ns rg) = Inr s'"
    using s'(1) by (simp add: motorInit_def Let_def initial_state_def)
  have "pwmCompleteWritePtr s' \<noteq> None \<longleftrightarrow> resync_required motorConfig"
    using s'(2) switch_complete_ptr[of tgt motorConfig idlePulse] by simp
  then show ?thesis using run by (simp add: pwmIsSynced_def)
qed

text \<open>OneShot125 synced and free-running, Dshot600, Standard.\<close>

theorem sync_binding_after_init_witness:
  "motorPwmRate (example_config PWM_TYPE_ONESHOT125 False) = 480 \<and>
   (\<exists>s' :: 32 pwm_state.
      motorInit example_target example_hal (example_config PWM_TYPE_ONESHOT125 False) 1000 4
        (initial_state 4 1 (regs example_state)) = Inr s' \<and> pwmIsSynced s') \<and>
   motorPwmRate (example_config PWM_TYPE_ONESHOT125 True) = 480 \<and>
   (\<exists>s' :: 32 pwm_state.
      motorInit example_target example_hal (example_config PWM_TYPE_ONESHOT125 True) 1000 4
        (initial_state 4 1 (regs example_state)) = Inr s' \<and> \<not> pwmIsSynced s') \<and>
   motorPwmRate (example_config PWM_TYPE_DSHOT600 True) = 480 \<and>
   (\<exists>s' :: 32 pwm_state.
      motorInit example_target example_hal (example_config PWM_TYPE_DSHOT600 True) 1000 4
        (initial_state 4 1 (regs example_state)) = Inr s' \<and> pwmIsSynced s') \<and>
   motorPwmRate (example_config PWM_TYPE_STANDARD False) = 480 \<and>
   (\<exists>s' :: 32 pwm_state.
      motorInit example_target example_hal (example_config PWM_TYPE_STANDARD False) 1000 4
        (initial_state 4 1 (regs example_state)) = Inr s' \<and> \<not> pwmIsSynced s')"
proof -
  have h: "motorPwmRate (example_config p u) \<noteq> 0 \<or> resync_required (example_config p u)" for p u
    by (simp add: example_config_def)
  have r1: "resync_required (example_config PWM_TYPE_ONESHOT125 False)"
    and r2: "\<not> resync_required (example_config PWM_TYPE_ONESHOT125 True)"
    and r3: "resync_required (example_config PWM_TYPE_DSHOT600 True)"
    and r4: "\<not> resync_required (example_config PWM_TYPE_STANDARD False)"
    by (simp_all add: resync_required_def example_config_def)
  have a1: "\<exists>s' :: 32 pwm_state.
      motorInit example_target example_hal (example_config PWM_TYPE_ONESHOT125 False) 1000 4
        (initial_state 4 1 (regs example_state)) = Inr s' \<and> pwmIsSynced s'"
    using sync_binding_after_init[OF h, of example_target example_hal PWM_TYPE_ONESHOT125 False 1000 4 4 1 "regs example_state"] r1 by blast
  have a2: "\<exists>s' :: 32 pwm_state.
      motorInit example_target example_hal (example_config PWM_TYPE_ONESHOT125 True) 1000 4
        (initial_state 4 1 (regs example_state)) = Inr s' \<and> \<not> pwmIsSynced s'"
    using sync_binding_after_init[OF h, of example_target example_hal PWM_TYPE_ONESHOT125 True 1000 4 4 1 "regs example_state"] r2 by blast
  have a3: "\<exists>s' :: 32 pwm_state.
      motorInit example_target example_hal (example_config PWM_TYPE_DSHOT600 True) 1000 4
        (initial_state 4 1 (regs example_state)) = Inr s' \<and> pwmIsSynced s'"
    using sync_binding_after_init[OF h, of example_target example_hal PWM_TYPE_DSHOT600 True 1000 4 4 1 "regs example_state"] r3 by blast
  have a4: "\<exists>s' :: 32 pwm_state.
      motorInit example_target example_hal (example_config PWM_TYPE_STANDARD False) 1000 4
        (initial_state 4 1 (regs example_state)) = Inr s' \<and> \<not> pwmIsSynced s'"
    using sync_binding_after_init[OF h, of example_target example_hal PWM_TYPE_STANDARD False 1000 4 4 1 "regs example_state"] r4 by blast
  have rate: "motorPwmRate (example_config p u) = 480" for p u
    by (simp add: example_config_def)
  show ?thesis using rate a1 a2 a3 a4 by blast
qed

text \<open>
  The whole of \<^verbatim>\<open>motorInit\<close> when slot \<open>K\<close> is the first whose tag is unset or unresolved:
  the ports, the registers, the hardware calls and the three globals it leaves.
\<close>

lemma motorInit_first_unresolved:
  assumes "K < unat N" and "K < MAX_SUPPORTED_MOTORS s"
    and "\<forall>j<K. ioTags motorConfig j \<noteq> 0 \<and> timerGetByTag hal (ioTags motorConfig j) \<noteq> None"
    and "ioTags motorConfig K = 0 \<or> timerGetByTag hal (ioTags motorConfig K) = None"
    and "motorPwmRate motorConfig \<noteq> 0 \<or> resync_required motorConfig"
    and "spec_is_digital (motorPwmProtocol motorConfig) \<or>
         spec_clock_mhz tgt (motorPwmProtocol motorConfig) \<le> 255"
  shows "\<exists>s'. motorInit tgt hal motorConfig idlePulse N s = Inr s' \<and>
           length (motors s') = length (motors s) \<and>
           (\<forall>j<length (motors s). motors s' ! j =
              (if j < K
               then spec_port tgt hal motorConfig (ioTags motorConfig j)
                      (the (timerGetByTag hal (ioTags motorConfig j))) (motors s ! j)
               else motors s ! j)) \<and>
           regs s' = (\<lambda>a. if \<not> spec_is_digital (motorPwmProtocol motorConfig) \<and>
                             (\<exists>j. j < K \<and>
                                  a = timerChCCR hal (the (timerGetByTag hal (ioTags motorConfig j))))
                           then 0 else regs s a) \<and>
           trace s' = trace s @
             concat (map (\<lambda>j. spec_calls tgt hal motorConfig idlePulse j (ioTags motorConfig j)
                                 (the (timerGetByTag hal (ioTags motorConfig j)))) [0..<K]) \<and>
           servos s' = servos s \<and> pwmMotorsEnabled s' = pwmMotorsEnabled s \<and>
           pwmCompleteWritePtr s' =
             motorInit_complete_ptr
               (motorInit_switch tgt (motorPwmProtocol motorConfig) (useUnsyncedPwm motorConfig) idlePulse)
               (pwmCompleteWritePtr s)"
proof -
  let ?l = "motorInit_switch tgt (motorPwmProtocol motorConfig) (useUnsyncedPwm motorConfig) idlePulse"
  let ?s0 = "s\<lparr>pwmCompleteWritePtr := motorInit_complete_ptr ?l (pwmCompleteWritePtr s)\<rparr>"
  have K: "K \<le> length (motors ?s0)" "K \<le> unat N" "0 \<le> K"
    using assms(1,2) by (simp_all add: MAX_SUPPORTED_MOTORS_def)
  have good: "\<forall>j. 0 \<le> j \<and> j < K \<longrightarrow>
           ioTags motorConfig j \<noteq> 0 \<and> timerGetByTag hal (ioTags motorConfig j) \<noteq> None"
    using assms(3) by simp
  have bad: "K < length (motors ?s0) \<and> K < unat N \<longrightarrow>
           ioTags motorConfig K = 0 \<or> timerGetByTag hal (ioTags motorConfig K) = None"
    using assms(4) by simp
  obtain s' where s': "motorInit_loop tgt hal motorConfig ?l 0 (unat N) ?s0 = Inr s'"
    "length (motors s') = length (motors ?s0)"
    "\<forall>j<length (motors ?s0). motors s' ! j =
              (if 0 \<le> j \<and> j < K
               then spec_port tgt hal motorConfig (ioTags motorConfig j)
                      (the (timerGetByTag hal (ioTags motorConfig j))) (motors ?s0 ! j)
               else motors ?s0 ! j)"
    "regs s' = (\<lambda>a. if \<not> spec_is_digital (motorPwmProtocol motorConfig) \<and>
                             (\<exists>j. 0 \<le> j \<and> j < K \<and>
                                  a = timerChCCR hal (the (timerGetByTag hal (ioTags motorConfig j))))
                           then 0 else regs ?s0 a)"
    "trace s' = trace ?s0 @
             concat (map (\<lambda>j. spec_calls tgt hal motorConfig idlePulse j (ioTags motorConfig j)
                                 (the (timerGetByTag hal (ioTags motorConfig j)))) [0..<K])"
    "servos s' = servos ?s0" "pwmCompleteWritePtr s' = pwmCompleteWritePtr ?s0"
    "pwmMotorsEnabled s' = pwmMotorsEnabled ?s0"
    using motorInit_loop_spec[OF assms(5,6) refl K(3) K(1) K(2) good bad] by blast
  have run: "motorInit tgt hal motorConfig idlePulse N s = Inr s'"
    using s'(1) by (simp add: motorInit_def Let_def)
  have sel: "motors ?s0 = motors s" "regs ?s0 = regs s" "trace ?s0 = trace s"
    "servos ?s0 = servos s" "pwmMotorsEnabled ?s0 = pwmMotorsEnabled s"
    "pwmCompleteWritePtr ?s0 = motorInit_complete_ptr ?l (pwmCompleteWritePtr s)"
    by simp_all
  note r = s'(2-8)[unfolded sel]
  show ?thesis using run r by simp
qed

text \<open>
  Claim C7 as stated has every slot below the first unresolved one correctly configured, and
  the specification gives a free-running slot the period clock over rate. \<^verbatim>\<open>pwmOutConfig\<close>
  takes the period as \<^verbatim>\<open>uint16_t\<close>: with Multishot free-running at 72 MHz and a rate of 480 Hz
  the period is \<open>150000\<close> ticks, and the port and the time base get \<open>150000 mod 65536 = 18928\<close>.
\<close>

theorem motorInit_period_counterexample:
  "ioTags (example_config PWM_TYPE_MULTISHOT True) 0 = 1 \<and>
   timerGetByTag example_hal 1 = Some \<lparr>hw_tim = 100, hw_channel = 1, hw_output = 1\<rparr> \<and>
   motorPwmRate (example_config PWM_TYPE_MULTISHOT True) = 480 \<and>
   spec_clock_mhz example_target PWM_TYPE_MULTISHOT = 72 \<and>
   spec_period example_target (example_config PWM_TYPE_MULTISHOT True) = 150000 \<and>
   (\<exists>s' :: 32 pwm_state.
      motorInit example_target example_hal (example_config PWM_TYPE_MULTISHOT True) 1000 4
        (initial_state 4 1 (regs example_state)) = Inr s' \<and>
      enabled (motors s' ! 0) \<and>
      unat (period (motors s' ! 0)) = 18928 \<and>
      trace s' ! 2 = ConfigTimeBase 100 18928 72)"
proof -
  let ?c = "example_config PWM_TYPE_MULTISHOT True"
  let ?s = "initial_state 4 1 (regs example_state) :: 32 pwm_state"
  have h1: "(2 :: nat) < unat (4 :: uint8_t)" by simp
  have h2: "2 < MAX_SUPPORTED_MOTORS ?s" by (simp add: MAX_SUPPORTED_MOTORS_def initial_state_def)
  have h3: "\<forall>j<2. ioTags ?c j \<noteq> 0 \<and> timerGetByTag example_hal (ioTags ?c j) \<noteq> None"
    by (auto simp: example_config_def example_hal_def less_2_cases_iff)
  have h4: "ioTags ?c 2 = 0 \<or> timerGetByTag example_hal (ioTags ?c 2) = None"
    by (simp add: example_config_def example_hal_def)
  have h5: "motorPwmRate ?c \<noteq> 0 \<or> resync_required ?c" by (simp add: example_config_def)
  have h6: "spec_is_digital (motorPwmProtocol ?c) \<or>
            spec_clock_mhz example_target (motorPwmProtocol ?c) \<le> 255"
    by (simp add: example_config_def example_target_def)
  have u: "[0..<2] = [0, Suc 0]" by (simp add: upt_conv_Cons)
  from motorInit_first_unresolved[OF h1 h2 h3 h4 h5 h6, of 1000]
  obtain s' :: "32 pwm_state" where s':
    "motorInit example_target example_hal ?c 1000 4 ?s = Inr s'"
    "\<forall>j<length (motors ?s). motors s' ! j =
              (if j < 2
               then spec_port example_target example_hal ?c (ioTags ?c j)
                      (the (timerGetByTag example_hal (ioTags ?c j))) (motors ?s ! j)
               else motors ?s ! j)"
    "trace s' = trace ?s @
             concat (map (\<lambda>j. spec_calls example_target example_hal ?c 1000 j (ioTags ?c j)
                                 (the (timerGetByTag example_hal (ioTags ?c j)))) [0..<2])"
    by blast
  have per: "spec_period example_target ?c = 150000"
    by (simp add: spec_period_def spec_free_running_def example_config_def example_target_def)
  have p0: "motors s' ! 0 = spec_port example_target example_hal ?c (ioTags ?c 0)
                      (the (timerGetByTag example_hal (ioTags ?c 0))) (motors ?s ! 0)"
    using s'(2)[rule_format, of 0] by (simp add: initial_state_def)
  have en: "enabled (motors s' ! 0)" and pd: "unat (period (motors s' ! 0)) = 18928"
    unfolding p0 by (simp_all add: spec_port_def spec_period_def spec_free_running_def example_config_def
          example_target_def)
  have tr: "trace s' ! 2 = ConfigTimeBase 100 18928 72"
    unfolding s'(3) u
    by (simp add: spec_calls_def spec_period_def spec_free_running_def spec_idle_def
          initial_state_def example_config_def example_hal_def example_target_def)
  have t: "ioTags ?c 0 = 1"
    "timerGetByTag example_hal 1 = Some \<lparr>hw_tim = 100, hw_channel = 1, hw_output = 1\<rparr>"
    "motorPwmRate ?c = 480" "spec_clock_mhz example_target PWM_TYPE_MULTISHOT = 72"
    by (simp_all add: example_config_def example_hal_def example_target_def)
  show ?thesis using t per s'(1) en pd tr by blast
qed

text \<open>
  Claim C7, amended. Let slot \<open>K\<close>, among the requested slots and within the capacity, be the
  first whose tag is unset or does not resolve; let the rate be nonzero wherever the code
  divides by it, the clock constant of an analog protocol be at most 255 and its period at
  most 65535, the largest values that the \<^verbatim>\<open>uint8_t\<close> and \<^verbatim>\<open>uint16_t\<close> parameters of
  \<^verbatim>\<open>pwmOutConfig\<close> carry. Then \<^verbatim>\<open>motorInit\<close> returns. Its hardware calls are those the
  specification prescribes for slots \<open>0..K-1\<close>, slot after slot in index order, and no other.
  Every slot below \<open>K\<close> is enabled and holds the port the specification prescribes for its
  own tag; for an analog protocol its period is clock over rate when free-running and 65535
  when synced, and its compare register is 0. Every slot from \<open>K\<close> on is as it was. The
  ports, the registers and the hardware calls are the same for any other tags at and after
  \<open>K\<close> that leave \<open>K\<close> unset or unresolved.
\<close>

theorem motorInit_stops_at_first_unresolved:
  assumes "K < unat N" and "K < MAX_SUPPORTED_MOTORS s"
    and "\<forall>j<K. ioTags motorConfig j \<noteq> 0 \<and> timerGetByTag hal (ioTags motorConfig j) \<noteq> None"
    and "ioTags motorConfig K = 0 \<or> timerGetByTag hal (ioTags motorConfig K) = None"
    and "motorPwmRate motorConfig \<noteq> 0 \<or> resync_required motorConfig"
    and "spec_is_digital (motorPwmProtocol motorConfig) \<or>
         spec_clock_mhz tgt (motorPwmProtocol motorConfig) \<le> 255"
    and "spec_is_digital (motorPwmProtocol motorConfig) \<or> spec_period tgt motorConfig \<le> 65535"
  shows "\<exists>s'. motorInit tgt hal motorConfig idlePulse N s = Inr s' \<and>
           length (motors s') = length (motors s) \<and>
           trace s' = trace s @
             concat (map (\<lambda>j. spec_calls tgt hal motorConfig idlePulse j (ioTags motorConfig j)
                                 (the (timerGetByTag hal (ioTags motorConfig j)))) [0..<K]) \<and>
           (\<forall>j<K. enabled (motors s' ! j) \<and>
                   motors s' ! j =
                     spec_port tgt hal motorConfig (ioTags motorConfig j)
                       (the (timerGetByTag hal (ioTags motorConfig j))) (motors s ! j) \<and>
                   (\<not> spec_is_digital (motorPwmProtocol motorConfig) \<longrightarrow>
                      unat (period (motors s' ! j)) = spec_period tgt motorConfig \<and>
                      regs s' (timerChCCR hal (the (timerGetByTag hal (ioTags motorConfig j)))) = 0)) \<and>
           (\<forall>j. K \<le> j \<and> j < MAX_SUPPORTED_MOTORS s \<longrightarrow> motors s' ! j = motors s ! j) \<and>
           (\<forall>tags'. (\<forall>j<K. tags' j = ioTags motorConfig j) \<and>
                     (tags' K = 0 \<or> timerGetByTag hal (tags' K) = None) \<longrightarrow>
                (\<exists>s''. motorInit tgt hal (motorConfig\<lparr>ioTags := tags'\<rparr>) idlePulse N s = Inr s'' \<and>
                        motors s'' = motors s' \<and> regs s'' = regs s' \<and> trace s'' = trace s'))"
proof -
  obtain s' where s': "motorInit tgt hal motorConfig idlePulse N s = Inr s'"
    "length (motors s') = length (motors s)"
    "\<forall>j<length (motors s). motors s' ! j =
              (if j < K
               then spec_port tgt hal motorConfig (ioTags motorConfig j)
                      (the (timerGetByTag hal (ioTags motorConfig j))) (motors s ! j)
               else motors s ! j)"
    "regs s' = (\<lambda>a. if \<not> spec_is_digital (motorPwmProtocol motorConfig) \<and>
                             (\<exists>j. j < K \<and>
                                  a = timerChCCR hal (the (timerGetByTag hal (ioTags motorConfig j))))
                           then 0 else regs s a)"
    "trace s' = trace s @
             concat (map (\<lambda>j. spec_calls tgt hal motorConfig idlePulse j (ioTags motorConfig j)
                                 (the (timerGetByTag hal (ioTags motorConfig j)))) [0..<K])"
    using motorInit_first_unresolved[OF assms(1-6)] by blast
  have Kl: "K < length (motors s)" using assms(2) by (simp add: MAX_SUPPORTED_MOTORS_def)
  have pop: "\<forall>j<K. enabled (motors s' ! j) \<and>
                   motors s' ! j =
                     spec_port tgt hal motorConfig (ioTags motorConfig j)
                       (the (timerGetByTag hal (ioTags motorConfig j))) (motors s ! j) \<and>
                   (\<not> spec_is_digital (motorPwmProtocol motorConfig) \<longrightarrow>
                      unat (period (motors s' ! j)) = spec_period tgt motorConfig \<and>
                      regs s' (timerChCCR hal (the (timerGetByTag hal (ioTags motorConfig j)))) = 0)"
  proof (intro allI impI)
    fix j assume j: "j < K"
    then have jl: "j < length (motors s)" using Kl by simp
    have eq: "motors s' ! j = spec_port tgt hal motorConfig (ioTags motorConfig j)
                       (the (timerGetByTag hal (ioTags motorConfig j))) (motors s ! j)"
      using s'(3) jl j by simp
    have en: "enabled (motors s' ! j)" unfolding eq by (simp add: spec_port_def)
    have pz: "unat (period (motors s' ! j)) = spec_period tgt motorConfig \<and>
              regs s' (timerChCCR hal (the (timerGetByTag hal (ioTags motorConfig j)))) = 0"
      if nd: "\<not> spec_is_digital (motorPwmProtocol motorConfig)"
    proof -
      have fit: "spec_period tgt motorConfig \<le> 65535" using assms(7) nd by simp
      have "period (motors s' ! j) = (of_nat (spec_period tgt motorConfig) :: uint16_t)"
        unfolding eq using nd by (simp add: spec_port_def)
      then have "unat (period (motors s' ! j)) = spec_period tgt motorConfig"
        using fit by (simp add: unat_of_nat)
      moreover have "regs s' (timerChCCR hal (the (timerGetByTag hal (ioTags motorConfig j)))) = 0"
        unfolding s'(4) using j nd by auto
      ultimately show ?thesis by simp
    qed
    show "enabled (motors s' ! j) \<and>
                   motors s' ! j =
                     spec_port tgt hal motorConfig (ioTags motorConfig j)
                       (the (timerGetByTag hal (ioTags motorConfig j))) (motors s ! j) \<and>
                   (\<not> spec_is_digital (motorPwmProtocol motorConfig) \<longrightarrow>
                      unat (period (motors s' ! j)) = spec_period tgt motorConfig \<and>
                      regs s' (timerChCCR hal (the (timerGetByTag hal (ioTags motorConfig j)))) = 0)"
      using eq en pz by blast
  qed
  have rest: "\<forall>j. K \<le> j \<and> j < MAX_SUPPORTED_MOTORS s \<longrightarrow> motors s' ! j = motors s ! j"
    using s'(3) by (simp add: MAX_SUPPORTED_MOTORS_def)
  have indep: "\<exists>s''. motorInit tgt hal (motorConfig\<lparr>ioTags := tags'\<rparr>) idlePulse N s = Inr s'' \<and>
                        motors s'' = motors s' \<and> regs s'' = regs s' \<and> trace s'' = trace s'"
    if t: "(\<forall>j<K. tags' j = ioTags motorConfig j) \<and>
           (tags' K = 0 \<or> timerGetByTag hal (tags' K) = None)" for tags'
  proof -
    let ?c = "motorConfig\<lparr>ioTags := tags'\<rparr>"
    have a3: "\<forall>j<K. ioTags ?c j \<noteq> 0 \<and> timerGetByTag hal (ioTags ?c j) \<noteq> None"
      using assms(3) t by simp
    have a4: "ioTags ?c K = 0 \<or> timerGetByTag hal (ioTags ?c K) = None" using t by simp
    have a5: "motorPwmRate ?c \<noteq> 0 \<or> resync_required ?c"
      using assms(5) by (auto simp: resync_required_def split: motorPwmProtocolTypes_e.splits)
    have a6: "spec_is_digital (motorPwmProtocol ?c) \<or> spec_clock_mhz tgt (motorPwmProtocol ?c) \<le> 255"
      using assms(6) by simp
    obtain s'' where s'': "motorInit tgt hal ?c idlePulse N s = Inr s''"
      "length (motors s'') = length (motors s)"
      "\<forall>j<length (motors s). motors s'' ! j =
              (if j < K
               then spec_port tgt hal ?c (ioTags ?c j)
                      (the (timerGetByTag hal (ioTags ?c j))) (motors s ! j)
               else motors s ! j)"
      "regs s'' = (\<lambda>a. if \<not> spec_is_digital (motorPwmProtocol ?c) \<and>
                             (\<exists>j. j < K \<and>
                                  a = timerChCCR hal (the (timerGetByTag hal (ioTags ?c j))))
                           then 0 else regs s a)"
      "trace s'' = trace s @
             concat (map (\<lambda>j. spec_calls tgt hal ?c idlePulse j (ioTags ?c j)
                                 (the (timerGetByTag hal (ioTags ?c j)))) [0..<K])"
      using motorInit_first_unresolved[OF assms(1,2) a3 a4 a5 a6] by blast
    have sp: "spec_port tgt hal ?c tag hw old = spec_port tgt hal motorConfig tag hw old" for tag hw old
      by (simp add: spec_port_def spec_period_def spec_free_running_def)
    have sc: "spec_calls tgt hal ?c idlePulse k tag hw = spec_calls tgt hal motorConfig idlePulse k tag hw"
      for k tag hw
      by (simp add: spec_calls_def spec_period_def spec_idle_def spec_free_running_def)
    have m: "motors s'' = motors s'"
    proof (rule nth_equalityI)
      show "length (motors s'') = length (motors s')" using s''(2) s'(2) by simp
    next
      fix j assume "j < length (motors s'')"
      then have jl: "j < length (motors s)" using s''(2) by simp
      show "motors s'' ! j = motors s' ! j"
        using s''(3) s'(3) jl t by (simp add: sp)
    qed
    have "\<And>a. (\<exists>j. j < K \<and> a = timerChCCR hal (the (timerGetByTag hal (ioTags ?c j)))) =
              (\<exists>j. j < K \<and> a = timerChCCR hal (the (timerGetByTag hal (ioTags motorConfig j))))"
      using t by auto
    then have r: "regs s'' = regs s'" unfolding s''(4) s'(4) by simp
    have mp: "map (\<lambda>j. spec_calls tgt hal ?c idlePulse j (ioTags ?c j)
                     (the (timerGetByTag hal (ioTags ?c j)))) [0..<K] =
          map (\<lambda>j. spec_calls tgt hal motorConfig idlePulse j (ioTags motorConfig j)
                     (the (timerGetByTag hal (ioTags motorConfig j)))) [0..<K]"
      using t by (intro map_cong) (simp_all add: sc)
    have tr: "trace s'' = trace s'" unfolding s''(5) s'(5) mp ..
    show ?thesis using s''(1) m r tr by blast
  qed
  show ?thesis using s'(1,2,5) pop rest indep by blast
qed

text \<open>
  Four requested slots from the state at program start, the tag of slot 2 unresolved:
  OneShot125 free-running at 8 MHz and 480 Hz with an idle pulse of 1000, then Standard at
  1 MHz, which is free-running whatever the configuration says and idles at 0.
\<close>

theorem motorInit_stops_at_first_unresolved_witness:
  "(2 :: nat) < unat (4 :: uint8_t) \<and>
   2 < MAX_SUPPORTED_MOTORS (initial_state 4 1 (regs example_state)) \<and>
   ioTags (example_config PWM_TYPE_ONESHOT125 True) 0 = 1 \<and>
   ioTags (example_config PWM_TYPE_ONESHOT125 True) 1 = 2 \<and>
   ioTags (example_config PWM_TYPE_ONESHOT125 True) 2 = 9 \<and>
   timerGetByTag example_hal 9 = None \<and>
   motorPwmRate (example_config PWM_TYPE_ONESHOT125 True) = 480 \<and>
   spec_period example_target (example_config PWM_TYPE_ONESHOT125 True) = 16666 \<and>
   spec_period example_target (example_config PWM_TYPE_STANDARD False) = 2083 \<and>
   (\<exists>s' :: 32 pwm_state.
      motorInit example_target example_hal (example_config PWM_TYPE_ONESHOT125 True) 1000 4
        (initial_state 4 1 (regs example_state)) = Inr s' \<and>
      trace s' =
        [IOInit 201 0, IOConfigGPIO 201, ConfigTimeBase 100 16666 8, PwmOCConfig 100 1 1000 1,
         TIM_CtrlPWMOutputs 100, TIM_Cmd 100,
         IOInit 202 1, IOConfigGPIO 202, ConfigTimeBase 100 16666 8, PwmOCConfig 100 2 1000 1,
         TIM_CtrlPWMOutputs 100, TIM_Cmd 100] \<and>
      motors s' ! 0 = \<lparr>ccr = Some 401, tim = 100, period = 16666,
                       pwmWritePtr = Some WriteOneShot125, enabled = True, io = 201\<rparr> \<and>
      motors s' ! 1 = \<lparr>ccr = Some 402, tim = 100, period = 16666,
                       pwmWritePtr = Some WriteOneShot125, enabled = True, io = 202\<rparr> \<and>
      regs s' 401 = 0 \<and> regs s' 402 = 0 \<and>
      motors s' ! 2 = zero_port \<and> motors s' ! 3 = zero_port) \<and>
   (\<exists>s' :: 32 pwm_state.
      motorInit example_target example_hal (example_config PWM_TYPE_STANDARD False) 1000 4
        (initial_state 4 1 (regs example_state)) = Inr s' \<and>
      trace s' =
        [IOInit 201 0, IOConfigGPIO 201, ConfigTimeBase 100 2083 1, PwmOCConfig 100 1 0 1,
         TIM_CtrlPWMOutputs 100, TIM_Cmd 100,
         IOInit 202 1, IOConfigGPIO 202, ConfigTimeBase 100 2083 1, PwmOCConfig 100 2 0 1,
         TIM_CtrlPWMOutputs 100, TIM_Cmd 100] \<and>
      motors s' ! 0 = \<lparr>ccr = Some 401, tim = 100, period = 2083,
                       pwmWritePtr = Some WriteStandard, enabled = True, io = 201\<rparr> \<and>
      motors s' ! 1 = \<lparr>ccr = Some 402, tim = 100, period = 2083,
                       pwmWritePtr = Some WriteStandard, enabled = True, io = 202\<rparr> \<and>
      motors s' ! 2 = zero_port \<and> motors s' ! 3 = zero_port)"
proof -
  let ?s = "initial_state 4 1 (regs example_state) :: 32 pwm_state"
  have h1: "(2 :: nat) < unat (4 :: uint8_t)" by simp
  have h2: "2 < MAX_SUPPORTED_MOTORS ?s" by (simp add: MAX_SUPPORTED_MOTORS_def initial_state_def)
  have h3: "\<forall>j<2. ioTags (example_config p u) j \<noteq> 0 \<and>
                   timerGetByTag example_hal (ioTags (example_config p u) j) \<noteq> None" for p u
    by (auto simp: example_config_def example_hal_def less_2_cases_iff)
  have h4: "ioTags (example_config p u) 2 = 0 \<or>
            timerGetByTag example_hal (ioTags (example_config p u) 2) = None" for p u
    by (simp add: example_config_def example_hal_def)
  have h5: "motorPwmRate (example_config p u) \<noteq> 0 \<or> resync_required (example_config p u)" for p u
    by (simp add: example_config_def)
  have u: "[0..<2] = [0, Suc 0]" by (simp add: upt_conv_Cons)
  have A: "\<exists>s' :: 32 pwm_state.
      motorInit example_target example_hal (example_config PWM_TYPE_ONESHOT125 True) 1000 4 ?s = Inr s' \<and>
      trace s' =
        [IOInit 201 0, IOConfigGPIO 201, ConfigTimeBase 100 16666 8, PwmOCConfig 100 1 1000 1,
         TIM_CtrlPWMOutputs 100, TIM_Cmd 100,
         IOInit 202 1, IOConfigGPIO 202, ConfigTimeBase 100 16666 8, PwmOCConfig 100 2 1000 1,
         TIM_CtrlPWMOutputs 100, TIM_Cmd 100] \<and>
      motors s' ! 0 = \<lparr>ccr = Some 401, tim = 100, period = 16666,
                       pwmWritePtr = Some WriteOneShot125, enabled = True, io = 201\<rparr> \<and>
      motors s' ! 1 = \<lparr>ccr = Some 402, tim = 100, period = 16666,
                       pwmWritePtr = Some WriteOneShot125, enabled = True, io = 202\<rparr> \<and>
      regs s' 401 = 0 \<and> regs s' 402 = 0 \<and>
      motors s' ! 2 = zero_port \<and> motors s' ! 3 = zero_port"
  proof -
    let ?c = "example_config PWM_TYPE_ONESHOT125 True"
    have per: "spec_period example_target ?c = 16666"
      by (simp add: spec_period_def spec_free_running_def example_config_def example_target_def)
    have h6: "spec_is_digital (motorPwmProtocol ?c) \<or>
              spec_clock_mhz example_target (motorPwmProtocol ?c) \<le> 255"
      by (simp add: example_config_def example_target_def)
    have h7: "spec_is_digital (motorPwmProtocol ?c) \<or> spec_period example_target ?c \<le> 65535"
      unfolding per by simp
    from motorInit_stops_at_first_unresolved[OF h1 h2 h3 h4 h5 h6 h7, of 1000]
    obtain s' :: "32 pwm_state" where s':
      "motorInit example_target example_hal ?c 1000 4 ?s = Inr s'"
      "trace s' = trace ?s @
             concat (map (\<lambda>j. spec_calls example_target example_hal ?c 1000 j (ioTags ?c j)
                                 (the (timerGetByTag example_hal (ioTags ?c j)))) [0..<2])"
      "\<forall>j<2. enabled (motors s' ! j) \<and>
              motors s' ! j = spec_port example_target example_hal ?c (ioTags ?c j)
                                (the (timerGetByTag example_hal (ioTags ?c j))) (motors ?s ! j) \<and>
              (\<not> spec_is_digital (motorPwmProtocol ?c) \<longrightarrow>
                 unat (period (motors s' ! j)) = spec_period example_target ?c \<and>
                 regs s' (timerChCCR example_hal (the (timerGetByTag example_hal (ioTags ?c j)))) = 0)"
      "\<forall>j. 2 \<le> j \<and> j < MAX_SUPPORTED_MOTORS ?s \<longrightarrow> motors s' ! j = motors ?s ! j"
      by blast
    have tr: "trace s' =
        [IOInit 201 0, IOConfigGPIO 201, ConfigTimeBase 100 16666 8, PwmOCConfig 100 1 1000 1,
         TIM_CtrlPWMOutputs 100, TIM_Cmd 100,
         IOInit 202 1, IOConfigGPIO 202, ConfigTimeBase 100 16666 8, PwmOCConfig 100 2 1000 1,
         TIM_CtrlPWMOutputs 100, TIM_Cmd 100]"
      unfolding s'(2) u
      by (simp add: spec_calls_def spec_idle_def spec_free_running_def spec_period_def
            initial_state_def example_config_def example_hal_def example_target_def)
    have p0: "motors s' ! 0 = \<lparr>ccr = Some 401, tim = 100, period = 16666,
                       pwmWritePtr = Some WriteOneShot125, enabled = True, io = 201\<rparr>"
      and r0: "regs s' 401 = 0"
      using s'(3)[rule_format, of 0]
      by (simp_all add: spec_port_def spec_period_def spec_free_running_def example_config_def
            example_hal_def example_target_def)
    have p1: "motors s' ! 1 = \<lparr>ccr = Some 402, tim = 100, period = 16666,
                       pwmWritePtr = Some WriteOneShot125, enabled = True, io = 202\<rparr>"
      and r1: "regs s' 402 = 0"
      using s'(3)[rule_format, of 1]
      by (simp_all add: spec_port_def spec_period_def spec_free_running_def example_config_def
            example_hal_def example_target_def)
    have p2: "motors s' ! 2 = zero_port" and p3: "motors s' ! 3 = zero_port"
      using s'(4)[rule_format, of 2] s'(4)[rule_format, of 3]
      by (simp_all add: MAX_SUPPORTED_MOTORS_def initial_state_def)
    show ?thesis using s'(1) tr p0 p1 r0 r1 p2 p3 by blast
  qed
  have B: "\<exists>s' :: 32 pwm_state.
      motorInit example_target example_hal (example_config PWM_TYPE_STANDARD False) 1000 4 ?s = Inr s' \<and>
      trace s' =
        [IOInit 201 0, IOConfigGPIO 201, ConfigTimeBase 100 2083 1, PwmOCConfig 100 1 0 1,
         TIM_CtrlPWMOutputs 100, TIM_Cmd 100,
         IOInit 202 1, IOConfigGPIO 202, ConfigTimeBase 100 2083 1, PwmOCConfig 100 2 0 1,
         TIM_CtrlPWMOutputs 100, TIM_Cmd 100] \<and>
      motors s' ! 0 = \<lparr>ccr = Some 401, tim = 100, period = 2083,
                       pwmWritePtr = Some WriteStandard, enabled = True, io = 201\<rparr> \<and>
      motors s' ! 1 = \<lparr>ccr = Some 402, tim = 100, period = 2083,
                       pwmWritePtr = Some WriteStandard, enabled = True, io = 202\<rparr> \<and>
      motors s' ! 2 = zero_port \<and> motors s' ! 3 = zero_port"
  proof -
    let ?c = "example_config PWM_TYPE_STANDARD False"
    have per: "spec_period example_target ?c = 2083"
      by (simp add: spec_period_def spec_free_running_def example_config_def example_target_def)
    have h6: "spec_is_digital (motorPwmProtocol ?c) \<or>
              spec_clock_mhz example_target (motorPwmProtocol ?c) \<le> 255"
      by (simp add: example_config_def example_target_def)
    have h7: "spec_is_digital (motorPwmProtocol ?c) \<or> spec_period example_target ?c \<le> 65535"
      unfolding per by simp
    from motorInit_stops_at_first_unresolved[OF h1 h2 h3 h4 h5 h6 h7, of 1000]
    obtain s' :: "32 pwm_state" where s':
      "motorInit example_target example_hal ?c 1000 4 ?s = Inr s'"
      "trace s' = trace ?s @
             concat (map (\<lambda>j. spec_calls example_target example_hal ?c 1000 j (ioTags ?c j)
                                 (the (timerGetByTag example_hal (ioTags ?c j)))) [0..<2])"
      "\<forall>j<2. enabled (motors s' ! j) \<and>
              motors s' ! j = spec_port example_target example_hal ?c (ioTags ?c j)
                                (the (timerGetByTag example_hal (ioTags ?c j))) (motors ?s ! j) \<and>
              (\<not> spec_is_digital (motorPwmProtocol ?c) \<longrightarrow>
                 unat (period (motors s' ! j)) = spec_period example_target ?c \<and>
                 regs s' (timerChCCR example_hal (the (timerGetByTag example_hal (ioTags ?c j)))) = 0)"
      "\<forall>j. 2 \<le> j \<and> j < MAX_SUPPORTED_MOTORS ?s \<longrightarrow> motors s' ! j = motors ?s ! j"
      by blast
    have tr: "trace s' =
        [IOInit 201 0, IOConfigGPIO 201, ConfigTimeBase 100 2083 1, PwmOCConfig 100 1 0 1,
         TIM_CtrlPWMOutputs 100, TIM_Cmd 100,
         IOInit 202 1, IOConfigGPIO 202, ConfigTimeBase 100 2083 1, PwmOCConfig 100 2 0 1,
         TIM_CtrlPWMOutputs 100, TIM_Cmd 100]"
      unfolding s'(2) u
      by (simp add: spec_calls_def spec_idle_def spec_free_running_def spec_period_def
            initial_state_def example_config_def example_hal_def example_target_def)
    have p0: "motors s' ! 0 = \<lparr>ccr = Some 401, tim = 100, period = 2083,
                       pwmWritePtr = Some WriteStandard, enabled = True, io = 201\<rparr>"
      using s'(3)[rule_format, of 0]
      by (simp_all add: spec_port_def spec_period_def spec_free_running_def example_config_def
            example_hal_def example_target_def)
    have p1: "motors s' ! 1 = \<lparr>ccr = Some 402, tim = 100, period = 2083,
                       pwmWritePtr = Some WriteStandard, enabled = True, io = 202\<rparr>"
      using s'(3)[rule_format, of 1]
      by (simp_all add: spec_port_def spec_period_def spec_free_running_def example_config_def
            example_hal_def example_target_def)
    have p2: "motors s' ! 2 = zero_port" and p3: "motors s' ! 3 = zero_port"
      using s'(4)[rule_format, of 2] s'(4)[rule_format, of 3]
      by (simp_all add: MAX_SUPPORTED_MOTORS_def initial_state_def)
    show ?thesis using s'(1) tr p0 p1 p2 p3 by blast
  qed
  have t: "ioTags (example_config PWM_TYPE_ONESHOT125 True) 0 = 1"
    "ioTags (example_config PWM_TYPE_ONESHOT125 True) 1 = 2"
    "ioTags (example_config PWM_TYPE_ONESHOT125 True) 2 = 9"
    "timerGetByTag example_hal 9 = None"
    "motorPwmRate (example_config PWM_TYPE_ONESHOT125 True) = 480"
    by (simp_all add: example_config_def example_hal_def)
  have pers: "spec_period example_target (example_config PWM_TYPE_ONESHOT125 True) = 16666"
    "spec_period example_target (example_config PWM_TYPE_STANDARD False) = 2083"
    by (simp_all add: spec_period_def spec_free_running_def example_config_def example_target_def)
  show ?thesis using h1 h2 t pers A B by blast
qed

subsection \<open>The synced completion step after an initialisation that stopped early\<close>

lemma oneshot_loop_null:
  "k < motorCount \<Longrightarrow> k < length (motors s) \<Longrightarrow> index \<le> k \<Longrightarrow>
   ccr (motors s ! k) = None \<Longrightarrow>
   (\<forall>j. index \<le> j \<and> j < k \<longrightarrow> ccr (motors s ! j) \<noteq> None) \<Longrightarrow>
   oneshot_loop index motorCount s = Inl NullPointer"
proof (induction index motorCount s rule: oneshot_loop.induct)
  case (1 index motorCount s)
  have True: "index < motorCount" and inb: "index < length (motors s)"
    using "1.prems"(1,2,3) by simp_all
  let ?s0 = "if overflowed_scan (motors s) index 0 then s
             else s\<lparr>trace := trace s @ [TimerForceOverflow (tim (motors s ! index))]\<rparr>"
  show ?case
  proof (cases "index = k")
    case eq: True
    have "store_motor_ccr index 0 ?s0 = Inl NullPointer"
      using inb "1.prems"(4) eq by (simp add: store_motor_ccr_def)
    then show ?thesis using True inb by (subst oneshot_loop.simps) simp
  next
    case False
    then have lt: "index < k" using "1.prems"(3) by simp
    obtain b where b: "ccr (motors s ! index) = Some b"
      using "1.prems"(5) lt by (cases "ccr (motors s ! index)") auto
    let ?ev = "if overflowed_scan (motors s) index 0 then []
               else [TimerForceOverflow (tim (motors s ! index))]"
    let ?s1 = "s\<lparr>regs := (regs s)(b := 0), trace := trace s @ ?ev\<rparr>"
    have st: "store_motor_ccr index 0 ?s0 = Inr ?s1"
      using inb b by (simp add: store_motor_ccr_def)
    have "oneshot_loop (index + 1) motorCount ?s1 = Inl NullPointer"
      using "1.IH"[OF True inb st] "1.prems" lt by simp
    then show ?thesis using True inb st by (subst oneshot_loop.simps) simp
  qed
qed

text \<open>
  Claim C1. Four motors are requested with a synced OneShot125 configuration whose third
  tag does not resolve: \<^verbatim>\<open>motorInit\<close> configures slots 0 and 1, leaves slots 2 and 3
  disabled with a null \<^verbatim>\<open>ccr\<close>, and binds the synced completion step. The next
  \<^verbatim>\<open>pwmCompleteMotorUpdate(4)\<close> stores through the null \<^verbatim>\<open>ccr\<close> of slot 2, so the compare
  registers of ports \<open>0..3\<close> do not all end at 0. On the same state
  \<^verbatim>\<open>pwmShutdownPulsesForAllMotors(4)\<close>, which tests \<^verbatim>\<open>ccr\<close>, returns, and a write to slot 2
  changes nothing.
\<close>

theorem complete_oneshot_after_partial_init:
  "\<exists>s' :: 32 pwm_state.
     motorInit example_target example_hal (example_config PWM_TYPE_ONESHOT125 False) 1000 4
       (initial_state 4 1 (regs example_state)) = Inr s' \<and>
     MAX_SUPPORTED_MOTORS s' = 4 \<and>
     pwmIsSynced s' \<and>
     enabled (motors s' ! 0) \<and> ccr (motors s' ! 0) = Some 401 \<and>
     enabled (motors s' ! 1) \<and> ccr (motors s' ! 1) = Some 402 \<and>
     \<not> enabled (motors s' ! 2) \<and> ccr (motors s' ! 2) = None \<and>
     pwmCompleteMotorUpdate 4 s' = Inl NullPointer \<and>
     pwmCompleteOneshotMotorUpdate 4 s' = Inl NullPointer \<and>
     pwmWriteMotor example_target 2 1500 s' = Inr s' \<and>
     (\<exists>s''. pwmShutdownPulsesForAllMotors 4 s' = Inr s'')"
proof -
  let ?c = "example_config PWM_TYPE_ONESHOT125 False"
  let ?s = "initial_state 4 1 (regs example_state) :: 32 pwm_state"
  have h1: "(2 :: nat) < unat (4 :: uint8_t)" by simp
  have h2: "2 < MAX_SUPPORTED_MOTORS ?s" by (simp add: MAX_SUPPORTED_MOTORS_def initial_state_def)
  have h3: "\<forall>j<2. ioTags ?c j \<noteq> 0 \<and> timerGetByTag example_hal (ioTags ?c j) \<noteq> None"
    by (auto simp: example_config_def example_hal_def less_2_cases_iff)
  have h4: "ioTags ?c 2 = 0 \<or> timerGetByTag example_hal (ioTags ?c 2) = None"
    by (simp add: example_config_def example_hal_def)
  have h5: "motorPwmRate ?c \<noteq> 0 \<or> resync_required ?c" by (simp add: example_config_def)
  have h6: "spec_is_digital (motorPwmProtocol ?c) \<or>
            spec_clock_mhz example_target (motorPwmProtocol ?c) \<le> 255"
    by (simp add: example_config_def example_target_def)
  from motorInit_first_unresolved[OF h1 h2 h3 h4 h5 h6, of 1000]
  obtain s' :: "32 pwm_state" where s':
    "motorInit example_target example_hal ?c 1000 4 ?s = Inr s'"
    "length (motors s') = length (motors ?s)"
    "\<forall>j<length (motors ?s). motors s' ! j =
              (if j < 2
               then spec_port example_target example_hal ?c (ioTags ?c j)
                      (the (timerGetByTag example_hal (ioTags ?c j))) (motors ?s ! j)
               else motors ?s ! j)"
    "pwmMotorsEnabled s' = pwmMotorsEnabled ?s"
    "pwmCompleteWritePtr s' =
       motorInit_complete_ptr
         (motorInit_switch example_target (motorPwmProtocol ?c) (useUnsyncedPwm ?c) 1000)
         (pwmCompleteWritePtr ?s)"
    by blast
  have len: "length (motors s') = 4" using s'(2) by (simp add: initial_state_def)
  have ptr: "pwmCompleteWritePtr s' = Some CompleteOneshotMotorUpdate"
    using s'(5) by (simp add: example_config_def motorInit_complete_ptr_def)
  have p0: "enabled (motors s' ! 0)" "ccr (motors s' ! 0) = Some 401"
    using s'(3)[rule_format, of 0]
    by (simp_all add: initial_state_def spec_port_def example_config_def example_hal_def)
  have p1: "enabled (motors s' ! 1)" "ccr (motors s' ! 1) = Some 402"
    using s'(3)[rule_format, of 1]
    by (simp_all add: initial_state_def spec_port_def example_config_def example_hal_def)
  have p2: "motors s' ! 2 = zero_port"
    using s'(3)[rule_format, of 2] by (simp add: initial_state_def)
  have d2: "\<not> enabled (motors s' ! 2)" "ccr (motors s' ! 2) = None" "pwmWritePtr (motors s' ! 2) = None"
    unfolding p2 by (simp_all add: zero_port_def)
  have below: "\<forall>j. 0 \<le> j \<and> j < 2 \<longrightarrow> ccr (motors s' ! j) \<noteq> None"
    using p0(2) p1(2) by (auto simp: less_2_cases_iff)
  have loop: "oneshot_loop 0 (unat (4 :: uint8_t)) s' = Inl NullPointer"
    by (rule oneshot_loop_null[where k = 2]) (use len d2(2) below in simp_all)
  have one: "pwmCompleteOneshotMotorUpdate 4 s' = Inl NullPointer"
    using loop by (simp add: pwmCompleteOneshotMotorUpdate_def)
  have upd: "pwmCompleteMotorUpdate 4 s' = Inl NullPointer"
    using one ptr by (simp add: pwmCompleteMotorUpdate_def)
  have wr: "pwmWriteMotor example_target 2 1500 s' = Inr s'"
    using d2(3) by (simp add: pwmWriteMotor_def)
  have "unat (4 :: uint8_t) \<le> length (motors s')" using len by simp
  then have sh: "\<exists>s''. pwmShutdownPulsesForAllMotors 4 s' = Inr s''"
    unfolding pwmShutdownPulsesForAllMotors_def using shutdown_loop_eq by blast
  have cap: "MAX_SUPPORTED_MOTORS s' = 4" using len by (simp add: MAX_SUPPORTED_MOTORS_def)
  have syn: "pwmIsSynced s'" using ptr by (simp add: pwmIsSynced_def)
  show ?thesis using s'(1) cap syn p0 p1 d2(1,2) upd one wr sh by blast
qed

subsection \<open>Rounding to an integer and to binary32\<close>

lemma lrintf_near: "\<bar>of_int (lrintf x) - x\<bar> \<le> 1 / 2"
proof -
  define f where "f = \<lfloor>x\<rfloor>"
  define d where "d = x - of_int f"
  have d: "0 \<le> d" "d < 1" unfolding d_def f_def by linarith+
  have x: "x = of_int f + d" unfolding d_def by simp
  have r: "lrintf x = (if d < 1 / 2 then f else if 1 / 2 < d then f + 1
                       else if even f then f else f + 1)"
    unfolding lrintf_def Let_def f_def d_def by simp
  consider "d < 1 / 2" | "1 / 2 < d" | "d = 1 / 2" by linarith
  then show ?thesis
  proof cases
    case 1
    then have "lrintf x = f" using r by simp
    then have "of_int (lrintf x) - x = - d" using x by simp
    then show ?thesis using d 1 by simp
  next
    case 2
    then have "lrintf x = f + 1" using r by simp
    then have "of_int (lrintf x) - x = 1 - d" using x by simp
    then show ?thesis using d 2 by simp
  next
    case 3
    then have "lrintf x = f \<or> lrintf x = f + 1" using r by simp
    then have "of_int (lrintf x) - x = - d \<or> of_int (lrintf x) - x = 1 - d" using x by auto
    then show ?thesis using 3 by auto
  qed
qed

lemma lrintf_of_int: "lrintf (of_int n) = n"
  by (simp add: lrintf_def)

lemma nearest_mono:
  fixes r1 r2 :: int and e1 e2 :: rat
  assumes "\<bar>of_int r1 - e1\<bar> \<le> 1 / 2" "\<bar>of_int r2 - e2\<bar> \<le> 1 / 2" "e1 < e2"
  shows "r1 \<le> r2"
proof (rule ccontr)
  assume "\<not> r1 \<le> r2"
  then have "r2 + 1 \<le> r1" by simp
  then have "(of_int r2 :: rat) + 1 \<le> of_int r1" by (metis of_int_1 of_int_add of_int_le_iff)
  then show False using assms by (simp add: abs_le_iff)
qed

lemma ilogb_bounds:
  assumes "x \<noteq> 0"
  shows "2 powi (ilogb x) \<le> \<bar>x\<bar>" and "\<bar>x\<bar> < 2 powi (ilogb x + 1)"
proof -
  have both: "2 powi (ilogb x) \<le> \<bar>x\<bar> \<and> \<bar>x\<bar> < 2 powi (ilogb x + 1)"
  proof (cases "1 \<le> \<bar>x\<bar>")
    case True
    let ?n = "\<lfloor>\<bar>x\<bar>\<rfloor>"
    have n1: "1 \<le> ?n" using True by simp
    then have npos: "0 < ?n" by simp
    have b: "2 ^ nat (bitlen ?n - 1) \<le> ?n" "?n < 2 ^ nat (bitlen ?n)"
      using bitlen_bounds[OF npos] by simp_all
    have bl: "1 \<le> bitlen ?n" using npos by (simp add: bitlen_alt_def)
    have e: "ilogb x = bitlen ?n - 1" using True by (simp add: ilogb_def)
    have "(2::rat) powi (ilogb x) = 2 ^ nat (bitlen ?n - 1)"
      using bl e by (simp add: power_int_nonneg_exp)
    also have "\<dots> = of_int (2 ^ nat (bitlen ?n - 1))" by simp
    also have "\<dots> \<le> of_int ?n" using b(1) by (simp only: of_int_le_iff)
    also have "\<dots> \<le> \<bar>x\<bar>" by simp
    finally have lo: "2 powi (ilogb x) \<le> \<bar>x\<bar>" .
    have "?n + 1 \<le> 2 ^ nat (bitlen ?n)" using b(2) by simp
    then have "(of_int (?n + 1) :: rat) \<le> of_int (2 ^ nat (bitlen ?n))"
      by (simp only: of_int_le_iff)
    moreover have "\<bar>x\<bar> < of_int (?n + 1)" by simp linarith
    ultimately have "\<bar>x\<bar> < of_int (2 ^ nat (bitlen ?n))" by simp
    also have "\<dots> = 2 powi (ilogb x + 1)"
      using bl e by (simp add: power_int_nonneg_exp)
    finally show ?thesis using lo by simp
  next
    case False
    then have lt1: "\<bar>x\<bar> < 1" by simp
    have pos: "0 < \<bar>x\<bar>" using assms by simp
    let ?y = "1 / \<bar>x\<bar>"
    let ?m = "\<lceil>?y\<rceil> - 1"
    have y1: "1 < ?y" using lt1 pos by (simp add: field_simps)
    have c2: "2 \<le> \<lceil>?y\<rceil>" using y1 by (simp add: le_ceiling_iff)
    then have mpos: "0 < ?m" by simp
    have my: "of_int ?m < ?y" "?y \<le> of_int ?m + 1"
      using ceiling_correct[of ?y] by simp_all
    have b: "2 ^ nat (bitlen ?m - 1) \<le> ?m" "?m < 2 ^ nat (bitlen ?m)"
      using bitlen_bounds[OF mpos] by simp_all
    have bl: "1 \<le> bitlen ?m" using mpos by (simp add: bitlen_alt_def)
    have e: "ilogb x = - bitlen ?m" using False by (simp add: ilogb_def)
    have "?m + 1 \<le> 2 ^ nat (bitlen ?m)" using b(2) by simp
    then have le1: "(of_int (?m + 1) :: rat) \<le> of_int (2 ^ nat (bitlen ?m))"
      by (simp only: of_int_le_iff)
    have "?y \<le> of_int (?m + 1)" using my(2) by simp
    also note le1
    also have "(of_int (2 ^ nat (bitlen ?m)) :: rat) = 2 ^ nat (bitlen ?m)" by simp
    finally have yle: "?y \<le> 2 ^ nat (bitlen ?m)" .
    have le2: "(of_int (2 ^ nat (bitlen ?m - 1)) :: rat) \<le> of_int ?m"
      using b(1) by (simp only: of_int_le_iff)
    have "(2 :: rat) ^ nat (bitlen ?m - 1) = of_int (2 ^ nat (bitlen ?m - 1))" by simp
    also note le2
    also note my(1)
    finally have ygt: "2 ^ nat (bitlen ?m - 1) < ?y" .
    have p1: "(2::rat) powi (ilogb x) = 1 / 2 ^ nat (bitlen ?m)"
      using bl e by (simp add: power_int_def field_simps)
    have p2: "(2::rat) powi (ilogb x + 1) = 1 / 2 ^ nat (bitlen ?m - 1)"
    proof -
      have "ilogb x + 1 = - (bitlen ?m - 1)" using e by simp
      then have "(2::rat) powi (ilogb x + 1) = 2 powi (- (bitlen ?m - 1))" by simp
      also have "\<dots> = 1 / 2 powi (bitlen ?m - 1)" by (rule power_int_minus_divide)
      also have "\<dots> = 1 / 2 ^ nat (bitlen ?m - 1)" using bl by (simp add: power_int_nonneg_exp)
      finally show ?thesis .
    qed
    have lo: "1 / 2 ^ nat (bitlen ?m) \<le> \<bar>x\<bar>"
      using yle pos by (simp add: field_simps)
    have hi: "\<bar>x\<bar> < 1 / 2 ^ nat (bitlen ?m - 1)"
      using ygt pos by (simp add: field_simps)
    show ?thesis using lo hi p1 p2 by simp
  qed
  show "2 powi (ilogb x) \<le> \<bar>x\<bar>" and "\<bar>x\<bar> < 2 powi (ilogb x + 1)" using both by simp_all
qed

lemma ulp32_pos: "0 < ulp32 x"
  by (simp add: ulp32_def)

lemma fl32_err: "\<bar>fl32 x - x\<bar> \<le> ulp32 x / 2"
proof (cases "x = 0")
  case True
  then show ?thesis using ulp32_pos[of x] by (simp add: fl32_def)
next
  case False
  let ?u = "ulp32 x"
  have u: "0 < ?u" by (rule ulp32_pos)
  have "fl32 x - x = ?u * (of_int (lrintf (x / ?u)) - x / ?u)"
    using False u by (simp add: fl32_def field_simps)
  then have "\<bar>fl32 x - x\<bar> = ?u * \<bar>of_int (lrintf (x / ?u)) - x / ?u\<bar>"
    using u by (simp add: abs_mult)
  also have "\<dots> \<le> ?u * (1 / 2)"
    using u lrintf_near[of "x / ?u"] by (intro mult_left_mono) simp_all
  finally show ?thesis by simp
qed

lemma pow2_exp_less:
  assumes "(2::rat) powi a < 2 powi b"
  shows "a < b"
proof (rule ccontr)
  assume "\<not> a < b"
  then have "b \<le> a" by simp
  then have "(2::rat) powi b \<le> 2 powi a" by (intro power_int_increasing) simp_all
  then show False using assms by simp
qed

lemma ilogb_normal:
  assumes "2 powi (- 126) \<le> \<bar>x\<bar>"
  shows "- 126 \<le> ilogb x"
proof -
  have nz: "x \<noteq> 0"
  proof
    assume "x = 0"
    then have "(2::rat) powi (- 126) \<le> 0" using assms by simp
    moreover have "(0::rat) < 2 powi (- 126)" by (rule zero_less_power_int) simp
    ultimately show False by simp
  qed
  have "(2::rat) powi (- 126) < 2 powi (ilogb x + 1)"
    using assms ilogb_bounds(2)[OF nz] by simp
  then have "- 126 < ilogb x + 1" by (rule pow2_exp_less)
  then show ?thesis by simp
qed

lemma fl32_rel:
  assumes "2 powi (- 126) \<le> \<bar>x\<bar>"
  shows "\<bar>fl32 x - x\<bar> \<le> \<bar>x\<bar> / 2 ^ 24"
proof -
  have nz: "x \<noteq> 0"
  proof
    assume "x = 0"
    then have "(2::rat) powi (- 126) \<le> 0" using assms by simp
    moreover have "(0::rat) < 2 powi (- 126)" by (rule zero_less_power_int) simp
    ultimately show False by simp
  qed
  have e: "- 126 \<le> ilogb x" by (rule ilogb_normal[OF assms])
  have "ulp32 x = 2 powi (ilogb x - 23)" using e by (simp add: ulp32_def max_def)
  also have "\<dots> = 2 powi (ilogb x) / 2 ^ 23"
    by (simp add: power_int_diff)
  also have "\<dots> \<le> \<bar>x\<bar> / 2 ^ 23"
    using ilogb_bounds(1)[OF nz] by (simp add: divide_right_mono)
  finally have "ulp32 x / 2 \<le> \<bar>x\<bar> / 2 ^ 23 / 2" by simp
  then show ?thesis using fl32_err[of x] by simp
qed

lemma fl32_abs:
  assumes "x = 0 \<or> 2 powi (- 126) \<le> \<bar>x\<bar>" and "\<bar>x\<bar> \<le> B"
  shows "\<bar>fl32 x - x\<bar> \<le> B / 2 ^ 24"
proof (cases "x = 0")
  case True
  then show ?thesis using assms(2) by (simp add: fl32_def)
next
  case False
  then have "\<bar>fl32 x - x\<bar> \<le> \<bar>x\<bar> / 2 ^ 24" using assms(1) fl32_rel by simp
  also have "\<dots> \<le> B / 2 ^ 24" using assms(2) by (simp add: divide_right_mono)
  finally show ?thesis .
qed

lemma fl32_exact:
  assumes "\<bar>m\<bar> < 2 ^ 24" and "- 149 \<le> k"
  shows "fl32 (of_int m * 2 powi k) = of_int m * 2 powi k"
proof (cases "m = 0")
  case True
  then show ?thesis by (simp add: fl32_def)
next
  case False
  let ?x = "of_int m * (2::rat) powi k"
  have pk: "(0::rat) < 2 powi k" by (rule zero_less_power_int) simp
  have nz: "?x \<noteq> 0" using False pk by simp
  have ax: "\<bar>?x\<bar> = of_int \<bar>m\<bar> * 2 powi k" using pk by (simp add: abs_mult)
  have "(of_int \<bar>m\<bar> :: rat) < of_int (2 ^ 24)" using assms(1) by (simp only: of_int_less_iff)
  then have "\<bar>?x\<bar> < 2 ^ 24 * 2 powi k" unfolding ax using pk by simp
  also have "\<dots> = 2 powi (k + 24)" by (simp add: power_int_add)
  finally have "(2::rat) powi (ilogb ?x) < 2 powi (k + 24)"
    using ilogb_bounds(1)[OF nz] by simp
  then have "ilogb ?x < k + 24" by (rule pow2_exp_less)
  then have pk': "max (ilogb ?x) (- 126) - 23 \<le> k" using assms(2) by simp
  define p where "p = max (ilogb ?x) (- 126) - 23"
  have u: "ulp32 ?x = 2 powi p" by (simp add: ulp32_def p_def)
  have "?x / 2 powi p = of_int m * 2 powi (k - p)" by (simp add: power_int_diff)
  also have "\<dots> = of_int m * 2 ^ nat (k - p)"
    using pk' unfolding p_def[symmetric] by (simp add: power_int_nonneg_exp)
  also have "\<dots> = of_int (m * 2 ^ nat (k - p))" by simp
  finally have q: "?x / ulp32 ?x = of_int (m * 2 ^ nat (k - p))" unfolding u .
  have "fl32 ?x = of_int (m * 2 ^ nat (k - p)) * ulp32 ?x"
    using nz unfolding fl32_def q lrintf_of_int by simp
  also have "\<dots> = ?x / ulp32 ?x * ulp32 ?x" unfolding q ..
  also have "\<dots> = ?x" using ulp32_pos[of ?x] by simp
  finally show ?thesis .
qed

lemma float_of_int_exact: "\<bar>n\<bar> < 2 ^ 24 \<Longrightarrow> float_of_int n = of_int n"
  using fl32_exact[of n 0] by (simp add: float_of_int_def)

lemma fdiv_8_exact: "\<bar>n\<bar> < 2 ^ 24 \<Longrightarrow> fdiv (of_int n) 8 = of_int n / 8"
  using fl32_exact[of n "- 3"] by (simp add: fdiv_def)

text \<open>
  An integer within one half of \<open>y\<close> is within one half of a fraction \<open>N / D\<close> that \<open>y\<close>
  approximates to less than \<open>1 / D\<close>, for even \<open>D\<close>: multiples of \<open>1 / D\<close> lie either on
  a half-integer or at least \<open>1 / D\<close> away from it.
\<close>

lemma nearest_snap:
  fixes r N D :: int and y :: rat
  assumes "0 < D" and "even D"
    and "\<bar>of_int r - y\<bar> \<le> 1 / 2"
    and "\<bar>y - of_int N / of_int D\<bar> < 1 / of_int D"
  shows "\<bar>of_int r - of_int N / of_int D\<bar> \<le> (1 / 2 :: rat)"
proof -
  have Dp: "(0::rat) < of_int D" using assms(1) by simp
  obtain h where h: "D = 2 * h" using assms(2) by (elim evenE)
  have "\<bar>of_int r - of_int N / of_int D\<bar> < 1 / 2 + 1 / (of_int D :: rat)"
    using assms(3,4) by linarith
  then have "\<bar>of_int r - of_int N / of_int D\<bar> * of_int D < (1 / 2 + 1 / of_int D) * (of_int D :: rat)"
    using Dp by (simp only: mult_less_cancel_right_pos)
  moreover have "\<bar>of_int r - of_int N / of_int D\<bar> * (of_int D :: rat) = \<bar>of_int (r * D - N)\<bar>"
  proof -
    have "\<bar>of_int r - of_int N / of_int D\<bar> * (of_int D :: rat) =
          \<bar>(of_int r - of_int N / of_int D) * of_int D\<bar>"
      using Dp by (simp add: abs_mult)
    also have "(of_int r - of_int N / of_int D) * (of_int D :: rat) = of_int (r * D - N)"
      using Dp by (simp add: field_simps)
    finally show ?thesis .
  qed
  moreover have "(1 / 2 + 1 / of_int D) * (of_int D :: rat) = of_int (h + 1)"
    using Dp h by (simp add: field_simps)
  ultimately have "(\<bar>of_int (r * D - N)\<bar> :: rat) < of_int (h + 1)" by simp
  then have "(of_int \<bar>r * D - N\<bar> :: rat) < of_int (h + 1)" by simp
  then have "\<bar>r * D - N\<bar> < h + 1" by (simp only: of_int_less_iff)
  then have "\<bar>r * D - N\<bar> \<le> h" by simp
  then have k: "(of_int \<bar>r * D - N\<bar> :: rat) \<le> of_int h" by (simp only: of_int_le_iff)
  have eq: "of_int r - of_int N / of_int D = of_int (r * D - N) / (of_int D :: rat)"
    using Dp by (simp add: field_simps)
  have "\<bar>of_int (r * D - N) / (of_int D :: rat)\<bar> =
        \<bar>of_int (r * D - N)\<bar> / \<bar>of_int D :: rat\<bar>"
    by (rule abs_divide)
  also have "\<dots> = (of_int \<bar>r * D - N\<bar> :: rat) / of_int D"
    using Dp by (simp only: of_int_abs abs_of_pos)
  finally have "\<bar>of_int r - of_int N / of_int D\<bar> = (of_int \<bar>r * D - N\<bar> :: rat) / of_int D"
    unfolding eq .
  also have "\<dots> \<le> of_int h / of_int D"
    using k Dp by (simp only: divide_right_mono less_imp_le)
  also have "\<dots> = 1 / 2" using Dp h by simp
  finally show ?thesis .
qed

lemma round_half_even_near: "\<bar>of_int (round_half_even x) - x\<bar> \<le> 1 / 2"
proof -
  define r where "r = \<lfloor>x + 1 / 2\<rfloor>"
  have a: "of_int r \<le> x + 1 / 2" and b: "x + 1 / 2 < of_int r + 1"
    unfolding r_def by linarith+
  show ?thesis
  proof (cases "of_int r - x = 1 / 2 \<and> odd r")
    case True
    then have "round_half_even x = r - 1"
      by (simp add: round_half_even_def Let_def r_def[symmetric])
    moreover have "\<bar>of_int (r - 1) - x\<bar> \<le> 1 / 2" using True by simp
    ultimately show ?thesis by simp
  next
    case False
    then have "round_half_even x = r"
      by (simp add: round_half_even_def Let_def r_def[symmetric])
    moreover have "\<bar>of_int r - x\<bar> \<le> 1 / 2" using a b by linarith
    ultimately show ?thesis by simp
  qed
qed

lemma nearest_unique:
  fixes r1 r2 :: int and e :: rat
  assumes "\<bar>of_int r1 - e\<bar> \<le> 1 / 2" and "\<bar>of_int r2 - e\<bar> \<le> 1 / 2"
    and "\<And>m :: int. e \<noteq> of_int m + 1 / 2"
  shows "r1 = r2"
proof (rule ccontr)
  assume ne: "r1 \<noteq> r2"
  have sym: "False" if lt: "a < b" and ha: "\<bar>of_int a - e\<bar> \<le> 1 / 2" and hb: "\<bar>of_int b - e\<bar> \<le> 1 / 2"
    for a b :: int
  proof -
    have "a + 1 \<le> b" using lt by simp
    then have "(of_int a :: rat) + 1 \<le> of_int b" by (metis of_int_1 of_int_add of_int_le_iff)
    then have "e = of_int a + 1 / 2" using ha hb by (simp add: abs_le_iff) 
    then show False using assms(3) by blast
  qed
  show False using ne sym[of r1 r2] sym[of r2 r1] assms(1,2) by (cases "r1 < r2") auto
qed

lemma lrintf_round_half_even: "lrintf x = round_half_even x"
proof (cases "\<exists>m :: int. x = of_int m + 1 / 2")
  case True
  then obtain m :: int where m: "x = of_int m + 1 / 2" by blast
  have f: "\<lfloor>x\<rfloor> = m" unfolding m by linarith
  have g: "\<lfloor>x + 1 / 2\<rfloor> = m + 1" unfolding m by linarith
  show ?thesis
    unfolding lrintf_def round_half_even_def Let_def f g
    by (simp add: m)
next
  case False
  then have "\<And>m :: int. x \<noteq> of_int m + 1 / 2" by blast
  then show ?thesis
    by (rule nearest_unique[OF lrintf_near round_half_even_near])
qed

lemma half_tie_even_denominator:
  fixes N D m :: int
  assumes "0 < D" and "even D" and "(of_int N / of_int D :: rat) = of_int m + 1 / 2"
  shows "N mod D = D div 2"
proof -
  obtain h where h: "D = 2 * h" using assms(2) by (elim evenE)
  have hp: "0 < h" using assms(1) h by simp
  have "(of_int N :: rat) = (of_int m + 1 / 2) * of_int D"
    using assms(1,3) by (simp add: field_simps)
  also have "\<dots> = of_int (m * D + h)" unfolding h by (simp add: field_simps)
  finally have "N = m * D + h" by (simp only: of_int_eq_iff)
  then have "N mod D = h mod D" by (simp add: mod_simps)
  also have "\<dots> = h" using hp h by simp
  finally show ?thesis using h by simp
qed

subsection \<open>The oneshot-family encoders\<close>

lemma tiny_le: "(2::rat) powi (- 126) \<le> 1 / 100"
  by (simp add: power_int_minus_divide)

lemma c_int_small: "0 \<le> x \<Longrightarrow> x < 2 ^ 24 \<Longrightarrow> c_int x = x"
  by (simp add: c_int_def)

lemma uint16_mul_bounds:
  fixes v :: uint16_t and mhz :: nat
  assumes "mhz \<le> 255"
  shows "0 \<le> uint v * int mhz" and "uint v * int mhz < 2 ^ 24"
proof -
  have v: "0 \<le> uint v" "uint v \<le> 65535" using uint_bounded[of v] by simp_all
  show "0 \<le> uint v * int mhz" using v by simp
  have "uint v * int mhz \<le> 65535 * 255"
    using v assms by (intro mult_mono) simp_all
  then show "uint v * int mhz < 2 ^ 24" by simp
qed

lemma oneshot125_compare_eq:
  assumes "ONESHOT125_TIMER_MHZ tgt \<le> 255"
  shows "oneshot125_compare tgt v =
           lrintf (of_int (uint v * int (ONESHOT125_TIMER_MHZ tgt)) / 8)"
proof -
  let ?n = "uint v * int (ONESHOT125_TIMER_MHZ tgt)"
  have b: "0 \<le> ?n" "?n < 2 ^ 24" using uint16_mul_bounds[OF assms] by simp_all
  have c: "c_int ?n = ?n" by (rule c_int_small[OF b])
  have a: "\<bar>?n\<bar> < 2 ^ 24" using b by simp
  show ?thesis
    unfolding oneshot125_compare_def c float_of_int_exact[OF a] fdiv_8_exact[OF a] ..
qed

lemma oneshot42_compare_near:
  assumes "ONESHOT42_TIMER_MHZ tgt \<le> 255"
  shows "\<bar>of_int (oneshot42_compare tgt v) -
            of_int (uint v * int (ONESHOT42_TIMER_MHZ tgt)) / 24\<bar> \<le> (1 / 2 :: rat)"
proof -
  define n where "n = uint v * int (ONESHOT42_TIMER_MHZ tgt)"
  define x :: rat where "x = of_int n / 24"
  have b: "0 \<le> n" "n < 2 ^ 24" unfolding n_def using uint16_mul_bounds[OF assms] by simp_all
  have c: "c_int n = n" by (rule c_int_small[OF b])
  have a: "\<bar>n\<bar> < 2 ^ 24" using b by simp
  have r: "oneshot42_compare tgt v = lrintf (fl32 x)"
    unfolding oneshot42_compare_def n_def[symmetric] c float_of_int_exact[OF a] fdiv_def x_def ..
  have x0: "0 \<le> x" unfolding x_def using b(1) by simp
  have xb: "x < 2 ^ 24 / 24"
  proof -
    have "(of_int n :: rat) < of_int (2 ^ 24)" using b(2) by (simp only: of_int_less_iff)
    then show ?thesis unfolding x_def by simp
  qed
  have err: "\<bar>fl32 x - x\<bar> < 1 / 24"
  proof (cases "n = 0")
    case True
    then show ?thesis by (simp add: fl32_def x_def)
  next
    case False
    then have "1 \<le> n" using b(1) by simp
    then have "(of_int 1 :: rat) \<le> of_int n" by (simp only: of_int_le_iff)
    then have "1 / 24 \<le> x" unfolding x_def by simp
    then have "2 powi (- 126) \<le> \<bar>x\<bar>" using tiny_le by simp
    then have "\<bar>fl32 x - x\<bar> \<le> \<bar>x\<bar> / 2 ^ 24" by (rule fl32_rel)
    also have "\<dots> = x / 2 ^ 24" using x0 by simp
    also have "\<dots> < (2 ^ 24 / 24) / 2 ^ 24" using xb by (simp add: divide_strict_right_mono)
    finally show ?thesis by simp
  qed
  have "\<bar>of_int (lrintf (fl32 x)) - of_int n / of_int 24\<bar> \<le> (1 / 2 :: rat)"
    using err by (intro nearest_snap[where y = "fl32 x"] lrintf_near) (simp_all add: x_def)
  then show ?thesis unfolding r n_def by simp
qed

lemma multishot_compare_near:
  assumes "0 < MULTISHOT_TIMER_MHZ tgt" and "MULTISHOT_TIMER_MHZ tgt \<le> 255"
    and "1000 \<le> uint v" and "uint v \<le> 2000"
  shows "\<bar>of_int (multishot_compare tgt v) -
            of_int ((uint v - 1000) * int (MULTISHOT_TIMER_MHZ tgt) +
                    250 * int (MULTISHOT_TIMER_MHZ tgt)) / 50\<bar> \<le> (1 / 2 :: rat)"
proof -
  define m where "m = int (MULTISHOT_TIMER_MHZ tgt)"
  define k where "k = uint v - 1000"
  define M :: rat where "M = of_int m"
  define X :: rat where "X = of_int k"
  have m: "1 \<le> m" "m \<le> 255" unfolding m_def using assms(1,2) by simp_all
  have k: "0 \<le> k" "k \<le> 1000" unfolding k_def using assms(3,4) by simp_all
  have M: "1 \<le> M" "M \<le> 255"
    unfolding M_def using m by (simp_all only: of_int_le_iff[symmetric, where 'a = rat] of_int_1 of_int_numeral)
  have X: "0 \<le> X" "X \<le> 1000"
    unfolding X_def using k by (simp_all only: of_int_le_iff[symmetric, where 'a = rat] of_int_0 of_int_numeral)
  define A0 :: rat where "A0 = M * 20 / 1000"
  define c where "c = fl32 A0"
  define q where "q = X * c"
  define p where "p = fl32 q"
  define t where "t = p + M * 5"
  define s where "s = fl32 t"
  define E where "E = X * A0 + M * 5"
  have c20: "c_int (m * 20) = m * 20" using m by (intro c_int_small) simp_all
  have c5: "c_int (m * 5) = m * 5" using m by (intro c_int_small) simp_all
  have f20: "float_of_int (m * 20) = M * 20"
    using m unfolding M_def by (subst float_of_int_exact) simp_all
  have f5: "float_of_int (m * 5) = M * 5"
    using m unfolding M_def by (subst float_of_int_exact) simp_all
  have fk: "float_of_int k = X"
    using k unfolding X_def by (subst float_of_int_exact) simp_all
  have mult: "MULTISHOT_20US_MULT tgt = c"
    unfolding MULTISHOT_20US_MULT_def m_def[symmetric] c20 f20 fdiv_def c_def A0_def ..
  have pw: "MULTISHOT_5US_PW tgt = m * 5"
    unfolding MULTISHOT_5US_PW_def m_def[symmetric] c5 ..
  have r: "multishot_compare tgt v = lrintf s"
    unfolding multishot_compare_def k_def[symmetric] mult pw fk f5 fmul_def fadd_def
      s_def t_def p_def q_def ..
  have A0b: "1 / 50 \<le> A0" "A0 \<le> 51 / 10" unfolding A0_def using M by simp_all
  have e1: "\<bar>c - A0\<bar> \<le> 51 / 167772160"
  proof -
    have "2 powi (- 126) \<le> \<bar>A0\<bar>" using A0b(1) tiny_le by simp
    moreover have "\<bar>A0\<bar> \<le> 51 / 10" using A0b by simp
    ultimately have "\<bar>fl32 A0 - A0\<bar> \<le> (51 / 10) / 2 ^ 24" by (intro fl32_abs) simp_all
    then show ?thesis unfolding c_def by simp
  qed
  have cb: "1 / 100 \<le> c" using e1 A0b(1) by linarith
  have e2: "\<bar>q - X * A0\<bar> \<le> 5100 / 16777216"
  proof -
    have "q - X * A0 = X * (c - A0)" unfolding q_def by (simp add: algebra_simps)
    then have "\<bar>q - X * A0\<bar> = X * \<bar>c - A0\<bar>" using X(1) by (simp add: abs_mult)
    also have "\<dots> \<le> 1000 * (51 / 167772160)"
      using X e1 by (intro mult_mono) simp_all
    finally show ?thesis by simp
  qed
  have XA: "0 \<le> X * A0" "X * A0 \<le> 5100"
  proof -
    show "0 \<le> X * A0" using X(1) A0b(1) by simp
    have "X * A0 \<le> 1000 * (51 / 10)" using X A0b by (intro mult_mono) simp_all
    then show "X * A0 \<le> 5100" by simp
  qed
  have q0: "0 \<le> q" unfolding q_def using X(1) cb by simp
  have qb: "q \<le> 5101" using e2 XA(2) by linarith
  have qn: "q = 0 \<or> 2 powi (- 126) \<le> \<bar>q\<bar>"
  proof (cases "k = 0")
    case True
    then show ?thesis by (simp add: q_def X_def)
  next
    case False
    then have "1 \<le> k" using k(1) by simp
    then have "1 \<le> X"
      unfolding X_def by (simp only: of_int_le_iff[symmetric, where 'a = rat] of_int_1)
    then have "1 * c \<le> X * c" using cb by (intro mult_right_mono) simp_all
    then have "c \<le> q" unfolding q_def by simp
    then have "1 / 100 \<le> q" using cb by linarith
    then show ?thesis using tiny_le by simp
  qed
  have e3: "\<bar>p - q\<bar> \<le> 5101 / 16777216"
  proof -
    have "\<bar>q\<bar> \<le> 5101" using q0 qb by simp
    then have "\<bar>fl32 q - q\<bar> \<le> 5101 / 2 ^ 24" using qn by (intro fl32_abs) simp_all
    then show ?thesis unfolding p_def by simp
  qed
  have Eb: "5 \<le> E" "E \<le> 6375" unfolding E_def using XA M by simp_all
  have tE: "\<bar>t - E\<bar> \<le> 10201 / 16777216"
  proof -
    have "t - E = (p - q) + (q - X * A0)" unfolding t_def E_def by simp
    then have "\<bar>t - E\<bar> \<le> \<bar>p - q\<bar> + \<bar>q - X * A0\<bar>" by simp
    then show ?thesis using e3 e2 by simp
  qed
  have tb: "4 \<le> t" "t \<le> 6376" using tE Eb by linarith+
  have e4: "\<bar>s - t\<bar> \<le> 6376 / 16777216"
  proof -
    have "2 powi (- 126) \<le> \<bar>t\<bar>" using tb(1) tiny_le by simp
    moreover have "\<bar>t\<bar> \<le> 6376" using tb by simp
    ultimately have "\<bar>fl32 t - t\<bar> \<le> 6376 / 2 ^ 24" by (intro fl32_abs) simp_all
    then show ?thesis unfolding s_def by simp
  qed
  have sE: "\<bar>s - E\<bar> < 1 / 50"
  proof -
    have "s - E = (s - t) + (t - E)" by simp
    then have "\<bar>s - E\<bar> \<le> \<bar>s - t\<bar> + \<bar>t - E\<bar>" by simp
    then show ?thesis using e4 tE by simp
  qed
  have EN: "E = of_int (k * m + 250 * m) / of_int 50"
    unfolding E_def A0_def X_def M_def by simp
  have "\<bar>of_int (lrintf s) - of_int (k * m + 250 * m) / of_int 50\<bar> \<le> (1 / 2 :: rat)"
    using sE unfolding EN by (intro nearest_snap[where y = s] lrintf_near) simp_all
  then show ?thesis unfolding r k_def m_def by simp
qed

lemma nearest_bounds:
  fixes r B :: int and E :: rat
  assumes "\<bar>of_int r - E\<bar> \<le> 1 / 2" and "0 \<le> E" and "E \<le> of_int B"
  shows "0 \<le> r" and "r \<le> B"
proof -
  have "(- 1 :: rat) < of_int r" using assms(1,2) by linarith
  then have "(of_int (- 1) :: rat) < of_int r" by simp
  then have "- 1 < r" by (simp only: of_int_less_iff)
  then show "0 \<le> r" by simp
  have "(of_int r :: rat) < of_int B + 1" using assms(1,3) by linarith
  then have "(of_int r :: rat) < of_int (B + 1)" by simp
  then have "r < B + 1" by (simp only: of_int_less_iff)
  then show "r \<le> B" by simp
qed

lemma nearest_int_eq:
  fixes r K :: int
  assumes "\<bar>of_int r - (of_int K :: rat)\<bar> \<le> 1 / 2"
  shows "r = K"
proof -
  have "(of_int r :: rat) - of_int K = of_int (r - K)" by simp
  then have "\<bar>(of_int (r - K) :: rat)\<bar> < 1" using assms by linarith
  then have "(of_int \<bar>r - K\<bar> :: rat) < of_int 1" by (simp only: of_int_abs of_int_1)
  then have "\<bar>r - K\<bar> < 1" by (simp only: of_int_less_iff)
  then show ?thesis by simp
qed

lemma word_of_int_mono16:
  assumes "16 \<le> LENGTH('w::len)" and "0 \<le> r1" and "r1 \<le> r2" and "r2 < 65536"
  shows "(word_of_int r1 :: 'w word) \<le> word_of_int r2"
proof -
  have "(2::int) ^ 16 \<le> 2 ^ LENGTH('w)" using assms(1) by (intro power_increasing) simp_all
  then have b: "r1 < 2 ^ LENGTH('w)" "r2 < 2 ^ LENGTH('w)" using assms(3,4) by simp_all
  have "uint (word_of_int r1 :: 'w word) = r1" "uint (word_of_int r2 :: 'w word) = r2"
    using b assms(2,3) by (simp_all add: uint_word_of_int_eq take_bit_int_eq_self)
  then show ?thesis using assms(3) by (simp add: word_le_def)
qed

lemma rat_of_int_bounds:
  fixes n lo hi :: int
  assumes "lo \<le> n" and "n \<le> hi"
  shows "(of_int lo :: rat) \<le> of_int n" and "(of_int n :: rat) \<le> of_int hi"
  using assms by (simp_all only: of_int_le_iff)

lemma scaled_bounds:
  fixes n :: int and mhz :: nat and d :: rat
  assumes "0 \<le> n" and "n \<le> 2000" and "mhz \<le> 255" and "8 \<le> d"
  shows "0 \<le> of_int n * of_nat mhz / d" and "of_int n * of_nat mhz / d \<le> of_int 63750"
proof -
  define N :: rat where "N = of_int n"
  define M :: rat where "M = of_nat mhz"
  have N: "0 \<le> N" "N \<le> 2000"
    unfolding N_def using rat_of_int_bounds[OF assms(1,2)] by simp_all
  have "(of_nat mhz :: rat) \<le> of_nat 255" using assms(3) by (simp only: of_nat_le_iff)
  then have M: "0 \<le> M" "M \<le> 255" unfolding M_def by simp_all
  have p: "N * M \<le> 2000 * 255" using N M by (intro mult_mono) simp_all
  have p0: "0 \<le> N * M" using N M by simp
  have a: "0 \<le> N * M / d" using p0 assms(4) by simp
  have "N * M / d \<le> N * M / 8" using p0 assms(4) by (intro divide_left_mono) simp_all
  also have "\<dots> \<le> 2000 * 255 / 8" using p by simp
  finally have b: "N * M / d \<le> 63750" by simp
  show "0 \<le> of_int n * of_nat mhz / d" using a unfolding N_def M_def .
  show "of_int n * of_nat mhz / d \<le> of_int 63750" using b unfolding N_def M_def by simp
qed

lemma scaled_strict:
  fixes n1 n2 :: int and mhz :: nat and d :: rat
  assumes "n1 < n2" and "0 < mhz" and "0 < d"
  shows "of_int n1 * of_nat mhz / d < of_int n2 * of_nat mhz / d"
proof -
  have a: "(of_int n1 :: rat) < of_int n2" using assms(1) by (simp only: of_int_less_iff)
  have m: "(0::rat) < of_nat mhz" using assms(2) by simp
  have "(of_int n1 :: rat) * of_nat mhz < of_int n2 * of_nat mhz"
    using a m by (rule mult_strict_right_mono)
  then show ?thesis using assms(3) by (rule divide_strict_right_mono)
qed

lemma multishot_form:
  fixes n :: int and mhz :: nat
  shows "(of_int ((n - 1000) * int mhz + 250 * int mhz) / 50 :: rat) =
         (of_int n - 1000) * (of_nat mhz * 20 / 1000) + of_nat mhz * 5"
proof -
  define N :: rat where "N = of_int n"
  define M :: rat where "M = of_nat mhz"
  have "(of_int ((n - 1000) * int mhz + 250 * int mhz) :: rat) = (N - 1000) * M + 250 * M"
    unfolding N_def M_def by simp
  moreover have "((N - 1000) * M + 250 * M) / 50 = (N - 1000) * (M * 20 / 1000) + M * 5"
    by (simp add: field_simps)
  ultimately show ?thesis unfolding N_def M_def by simp
qed

lemma multishot_exact_bounds:
  fixes n :: int and mhz :: nat
  assumes "1000 \<le> n" and "n \<le> 2000" and "mhz \<le> 255"
  shows "0 \<le> (of_int n - 1000) * (of_nat mhz * 20 / 1000) + (of_nat mhz * 5 :: rat)"
    and "(of_int n - 1000) * (of_nat mhz * 20 / 1000) + (of_nat mhz * 5 :: rat) \<le> of_int 6375"
proof -
  define N :: rat where "N = of_int n"
  define M :: rat where "M = of_nat mhz"
  have N: "1000 \<le> N" "N \<le> 2000"
    unfolding N_def using rat_of_int_bounds[OF assms(1,2)] by simp_all
  have "(of_nat mhz :: rat) \<le> of_nat 255" using assms(3) by (simp only: of_nat_le_iff)
  then have M: "0 \<le> M" "M \<le> 255" unfolding M_def by simp_all
  have c: "0 \<le> M * 20 / 1000" "M * 20 / 1000 \<le> 51 / 10" using M by simp_all
  have v: "0 \<le> N - 1000" "N - 1000 \<le> 1000" using N by simp_all
  have p0: "0 \<le> (N - 1000) * (M * 20 / 1000)" using v(1) c(1) by (rule mult_nonneg_nonneg)
  have p: "(N - 1000) * (M * 20 / 1000) \<le> 1000 * (51 / 10)"
    using v c by (intro mult_mono) simp_all
  have a: "0 \<le> (N - 1000) * (M * 20 / 1000) + M * 5" using p0 M(1) by simp
  have b: "(N - 1000) * (M * 20 / 1000) + M * 5 \<le> 6375" using p M(2) by simp
  show "0 \<le> (of_int n - 1000) * (of_nat mhz * 20 / 1000) + (of_nat mhz * 5 :: rat)"
    using a unfolding N_def M_def .
  show "(of_int n - 1000) * (of_nat mhz * 20 / 1000) + (of_nat mhz * 5 :: rat) \<le> of_int 6375"
    using b unfolding N_def M_def by simp
qed

lemma multishot_exact_strict:
  fixes n1 n2 :: int and mhz :: nat
  assumes "n1 < n2" and "0 < mhz"
  shows "(of_int n1 - 1000) * (of_nat mhz * 20 / 1000) + (of_nat mhz * 5 :: rat) <
         (of_int n2 - 1000) * (of_nat mhz * 20 / 1000) + of_nat mhz * 5"
proof -
  have a: "(of_int n1 :: rat) < of_int n2" using assms(1) by (simp only: of_int_less_iff)
  then have a': "(of_int n1 :: rat) - 1000 < of_int n2 - 1000" by simp
  have c: "(0::rat) < of_nat mhz * 20 / 1000" using assms(2) by simp
  have "(of_int n1 - 1000) * (of_nat mhz * 20 / 1000 :: rat) <
        (of_int n2 - 1000) * (of_nat mhz * 20 / 1000)"
    using a' c by (rule mult_strict_right_mono)
  then show ?thesis by simp
qed

lemma oneshot125_near:
  assumes "ONESHOT125_TIMER_MHZ tgt \<le> 255"
  shows "\<bar>of_int (oneshot125_compare tgt v) -
            of_int (uint v) * of_nat (ONESHOT125_TIMER_MHZ tgt) / 8\<bar> \<le> (1 / 2 :: rat)"
proof -
  have "(of_int (uint v * int (ONESHOT125_TIMER_MHZ tgt)) :: rat) =
        of_int (uint v) * of_nat (ONESHOT125_TIMER_MHZ tgt)"
    by (simp only: of_int_mult of_int_of_nat_eq)
  then show ?thesis
    unfolding oneshot125_compare_eq[OF assms]
    using lrintf_near[of "of_int (uint v * int (ONESHOT125_TIMER_MHZ tgt)) / 8"]
    by (simp only:)
qed

lemma oneshot42_near:
  assumes "ONESHOT42_TIMER_MHZ tgt \<le> 255"
  shows "\<bar>of_int (oneshot42_compare tgt v) -
            of_int (uint v) * of_nat (ONESHOT42_TIMER_MHZ tgt) / 24\<bar> \<le> (1 / 2 :: rat)"
proof -
  have "(of_int (uint v * int (ONESHOT42_TIMER_MHZ tgt)) :: rat) =
        of_int (uint v) * of_nat (ONESHOT42_TIMER_MHZ tgt)"
    by (simp only: of_int_mult of_int_of_nat_eq)
  then show ?thesis using oneshot42_compare_near[OF assms, of v] by (simp only:)
qed

lemma multishot_near:
  assumes "0 < MULTISHOT_TIMER_MHZ tgt" and "MULTISHOT_TIMER_MHZ tgt \<le> 255"
    and "1000 \<le> uint v" and "uint v \<le> 2000"
  shows "\<bar>of_int (multishot_compare tgt v) -
            ((of_int (uint v) - 1000) * (of_nat (MULTISHOT_TIMER_MHZ tgt) * 20 / 1000) +
             of_nat (MULTISHOT_TIMER_MHZ tgt) * 5)\<bar> \<le> (1 / 2 :: rat)"
  using multishot_compare_near[OF assms] unfolding multishot_form .

lemma oneshot125_exact:
  assumes "ONESHOT125_TIMER_MHZ tgt \<le> 255"
  shows "oneshot125_compare tgt v =
           round_half_even (of_int (uint v) * of_nat (ONESHOT125_TIMER_MHZ tgt) / 8)"
proof -
  have "(of_int (uint v * int (ONESHOT125_TIMER_MHZ tgt)) :: rat) =
        of_int (uint v) * of_nat (ONESHOT125_TIMER_MHZ tgt)"
    by (simp only: of_int_mult of_int_of_nat_eq)
  then show ?thesis
    unfolding oneshot125_compare_eq[OF assms] lrintf_round_half_even by (simp only:)
qed

lemma oneshot42_exact:
  assumes "ONESHOT42_TIMER_MHZ tgt \<le> 255"
  shows "oneshot42_compare tgt v =
           round_half_even (of_int (uint v) * of_nat (ONESHOT42_TIMER_MHZ tgt) / 24)"
proof -
  define n where "n = uint v * int (ONESHOT42_TIMER_MHZ tgt)"
  define x :: rat where "x = of_int n / 24"
  have b: "0 \<le> n" "n < 2 ^ 24" unfolding n_def using uint16_mul_bounds[OF assms] by simp_all
  have c: "c_int n = n" by (rule c_int_small[OF b])
  have a: "\<bar>n\<bar> < 2 ^ 24" using b by simp
  have r: "oneshot42_compare tgt v = lrintf (fl32 x)"
    unfolding oneshot42_compare_def n_def[symmetric] c float_of_int_exact[OF a] fdiv_def x_def ..
  have x0: "0 \<le> x" unfolding x_def using b(1) by simp
  have xb: "x < 699051"
  proof -
    have "(of_int n :: rat) < of_int (2 ^ 24)" using b(2) by (simp only: of_int_less_iff)
    then show ?thesis unfolding x_def by simp
  qed
  have near: "\<bar>of_int (oneshot42_compare tgt v) - x\<bar> \<le> 1 / 2"
    using oneshot42_compare_near[OF assms, of v] unfolding n_def[symmetric] x_def .
  have "oneshot42_compare tgt v = round_half_even x"
  proof (cases "\<exists>m :: int. x = of_int m + 1 / 2")
    case True
    then obtain m :: int where m: "x = of_int m + 1 / 2" by blast
    have "(of_int (2 * m + 1) :: rat) = 2 * x" unfolding m by simp
    then have m2: "0 \<le> (of_int (2 * m + 1) :: rat)" "(of_int (2 * m + 1) :: rat) < of_int 16777216"
      using x0 xb by simp_all
    have "0 \<le> 2 * m + 1" "2 * m + 1 < 16777216"
      using m2 by (simp_all only: of_int_less_iff of_int_0_le_iff)
    then have "\<bar>2 * m + 1\<bar> < 2 ^ 24" by simp
    then have "fl32 (of_int (2 * m + 1) * 2 powi (- 1)) = of_int (2 * m + 1) * 2 powi (- 1)"
      by (rule fl32_exact) simp
    moreover have "of_int (2 * m + 1) * 2 powi (- 1) = x"
      unfolding m by (simp add: power_int_minus_divide field_simps)
    ultimately have "fl32 x = x" by simp
    then show ?thesis unfolding r by (simp add: lrintf_round_half_even)
  next
    case False
    then have "\<And>m :: int. x \<noteq> of_int m + 1 / 2" by blast
    then show ?thesis by (rule nearest_unique[OF near round_half_even_near])
  qed
  moreover have "x = of_int (uint v) * of_nat (ONESHOT42_TIMER_MHZ tgt) / 24"
    unfolding x_def n_def by (simp only: of_int_mult of_int_of_nat_eq)
  ultimately show ?thesis by (simp only:)
qed

lemma multishot_exact:
  assumes "0 < MULTISHOT_TIMER_MHZ tgt" and "MULTISHOT_TIMER_MHZ tgt \<le> 255"
    and "1000 \<le> uint v" and "uint v \<le> 2000"
    and "((uint v - 1000) * int (MULTISHOT_TIMER_MHZ tgt) +
          250 * int (MULTISHOT_TIMER_MHZ tgt)) mod 50 \<noteq> 25"
  shows "multishot_compare tgt v =
           round_half_even ((of_int (uint v) - 1000) * (of_nat (MULTISHOT_TIMER_MHZ tgt) * 20 / 1000) +
                            of_nat (MULTISHOT_TIMER_MHZ tgt) * 5)"
proof -
  define N where "N = (uint v - 1000) * int (MULTISHOT_TIMER_MHZ tgt) +
                      250 * int (MULTISHOT_TIMER_MHZ tgt)"
  define E :: rat where "E = of_int N / of_int 50"
  have nt: "E \<noteq> of_int m + 1 / 2" for m :: int
  proof
    assume "E = of_int m + 1 / 2"
    then have "N mod 50 = 50 div 2"
      unfolding E_def by (intro half_tie_even_denominator[where m = m]) simp_all
    then show False using assms(5) unfolding N_def by simp
  qed
  have near: "\<bar>of_int (multishot_compare tgt v) - E\<bar> \<le> 1 / 2"
    using multishot_compare_near[OF assms(1-4)] unfolding E_def N_def by simp
  have "multishot_compare tgt v = round_half_even E"
    by (rule nearest_unique[OF near round_half_even_near nt])
  moreover have "E = (of_int (uint v) - 1000) * (of_nat (MULTISHOT_TIMER_MHZ tgt) * 20 / 1000) +
                            of_nat (MULTISHOT_TIMER_MHZ tgt) * 5"
    unfolding E_def N_def of_int_numeral by (rule multishot_form)
  ultimately show ?thesis by (simp only:)
qed

lemma multishot_even_clock:
  fixes k :: int and mhz :: nat
  assumes "even mhz"
  shows "(k * int mhz + 250 * int mhz) mod 50 \<noteq> 25"
proof
  assume h: "(k * int mhz + 250 * int mhz) mod 50 = 25"
  have "even (k * int mhz + 250 * int mhz)" using assms by simp
  moreover have "k * int mhz + 250 * int mhz =
                 50 * ((k * int mhz + 250 * int mhz) div 50) + (k * int mhz + 250 * int mhz) mod 50"
    by simp
  ultimately have "even (50 * ((k * int mhz + 250 * int mhz) div 50) + 25)" using h by simp
  then show False by simp
qed

lemma ucast16_word_of_int: "(ucast (v :: uint16_t) :: 'w::len word) = word_of_int (uint v)"
  by simp

lemma brushed_mono:
  assumes "1000 \<le> uint v1" and "uint v1 < uint v2" and "uint v2 \<le> 2000"
  shows "0 \<le> brushed_compare v1 per" and "brushed_compare v1 per \<le> brushed_compare v2 per"
    and "brushed_compare v2 per < 65536"
proof -
  have d1: "1000 \<le> uint v1" "uint v1 \<le> 2000" and d2: "1000 \<le> uint v2" "uint v2 \<le> 2000"
    using assms by simp_all
  have p: "0 \<le> uint per" "uint per < 65536" using uint_bounded[of per] by simp_all
  have e1: "brushed_compare v1 per = (uint v1 - 1000) * uint per div 1000"
    by (rule brushed_compare_domain[OF d1])
  have e2: "brushed_compare v2 per = (uint v2 - 1000) * uint per div 1000"
    by (rule brushed_compare_domain[OF d2])
  have n1: "0 \<le> (uint v1 - 1000) * uint per" using d1(1) p(1) by simp
  show "0 \<le> brushed_compare v1 per" unfolding e1 using n1 by (simp add: pos_imp_zdiv_nonneg_iff)
  have "(uint v1 - 1000) * uint per \<le> (uint v2 - 1000) * uint per"
    using assms(2) p(1) by (intro mult_right_mono) simp_all
  then show "brushed_compare v1 per \<le> brushed_compare v2 per"
    unfolding e1 e2 by (intro zdiv_mono1) simp_all
  have "(uint v2 - 1000) * uint per \<le> 1000 * uint per"
    using d2(2) p(1) by (intro mult_right_mono) simp_all
  then have "(uint v2 - 1000) * uint per div 1000 \<le> 1000 * uint per div 1000"
    by (intro zdiv_mono1) simp_all
  then show "brushed_compare v2 per < 65536" unfolding e2 using p(2) by simp
qed

lemma analog_values_monotone:
  assumes "clocks_ok tgt" and "1000 \<le> uint v1" and "uint v1 < uint v2" and "uint v2 \<le> 2000"
    and "f \<noteq> WriteDigital"
  shows "\<exists>r1 r2. (protocol_compare tgt f per v1 :: 'w::len word option) = Some (word_of_int r1) \<and>
                 (protocol_compare tgt f per v2 :: 'w word option) = Some (word_of_int r2) \<and>
                 0 \<le> r1 \<and> r1 \<le> r2 \<and> r2 < 65536"
proof -
  have d1: "0 \<le> uint v1" "1000 \<le> uint v1" "uint v1 \<le> 2000"
    and d2: "0 \<le> uint v2" "1000 \<le> uint v2" "uint v2 \<le> 2000"
    using assms(2,3,4) by simp_all
  have ck: "0 < ONESHOT125_TIMER_MHZ tgt" "ONESHOT125_TIMER_MHZ tgt \<le> 255"
    "0 < ONESHOT42_TIMER_MHZ tgt" "ONESHOT42_TIMER_MHZ tgt \<le> 255"
    "0 < MULTISHOT_TIMER_MHZ tgt" "MULTISHOT_TIMER_MHZ tgt \<le> 255"
    using assms(1) by (simp_all add: clocks_ok_def)
  show ?thesis
  proof (cases f)
    case WriteBrushed
    show ?thesis unfolding WriteBrushed
      using brushed_mono[OF assms(2,3,4), of per]
      by (intro exI[of _ "brushed_compare v1 per"] exI[of _ "brushed_compare v2 per"]) simp
  next
    case WriteStandard
    have "uint v2 < 65536" using d2(3) by simp
    then show ?thesis unfolding WriteStandard protocol_compare.simps ucast16_word_of_int
      using d1 assms(3) by (intro exI[of _ "uint v1"] exI[of _ "uint v2"]) simp
  next
    case WriteOneShot125
    let ?r1 = "oneshot125_compare tgt v1" and ?r2 = "oneshot125_compare tgt v2"
    have n1: "\<bar>of_int ?r1 - of_int (uint v1) * of_nat (ONESHOT125_TIMER_MHZ tgt) / 8\<bar> \<le> (1 / 2 :: rat)"
      and n2: "\<bar>of_int ?r2 - of_int (uint v2) * of_nat (ONESHOT125_TIMER_MHZ tgt) / 8\<bar> \<le> (1 / 2 :: rat)"
      by (rule oneshot125_near[OF ck(2)])+
    have "0 \<le> ?r1"
      by (rule nearest_bounds(1)[OF n1 scaled_bounds[OF d1(1) d1(3) ck(2)]]) simp_all
    moreover have "?r2 \<le> 63750"
      by (rule nearest_bounds(2)[OF n2 scaled_bounds[OF d2(1) d2(3) ck(2)]]) simp_all
    moreover have "?r1 \<le> ?r2"
      by (rule nearest_mono[OF n1 n2 scaled_strict[OF assms(3) ck(1)]]) simp
    ultimately show ?thesis unfolding WriteOneShot125
      by (intro exI[of _ ?r1] exI[of _ ?r2]) simp
  next
    case WriteOneShot42
    let ?r1 = "oneshot42_compare tgt v1" and ?r2 = "oneshot42_compare tgt v2"
    have n1: "\<bar>of_int ?r1 - of_int (uint v1) * of_nat (ONESHOT42_TIMER_MHZ tgt) / 24\<bar> \<le> (1 / 2 :: rat)"
      and n2: "\<bar>of_int ?r2 - of_int (uint v2) * of_nat (ONESHOT42_TIMER_MHZ tgt) / 24\<bar> \<le> (1 / 2 :: rat)"
      by (rule oneshot42_near[OF ck(4)])+
    have "0 \<le> ?r1"
      by (rule nearest_bounds(1)[OF n1 scaled_bounds[OF d1(1) d1(3) ck(4)]]) simp_all
    moreover have "?r2 \<le> 63750"
      by (rule nearest_bounds(2)[OF n2 scaled_bounds[OF d2(1) d2(3) ck(4)]]) simp_all
    moreover have "?r1 \<le> ?r2"
      by (rule nearest_mono[OF n1 n2 scaled_strict[OF assms(3) ck(3)]]) simp
    ultimately show ?thesis unfolding WriteOneShot42
      by (intro exI[of _ ?r1] exI[of _ ?r2]) simp
  next
    case WriteMultiShot
    let ?r1 = "multishot_compare tgt v1" and ?r2 = "multishot_compare tgt v2"
    have n1: "\<bar>of_int ?r1 - ((of_int (uint v1) - 1000) * (of_nat (MULTISHOT_TIMER_MHZ tgt) * 20 / 1000) +
             of_nat (MULTISHOT_TIMER_MHZ tgt) * 5)\<bar> \<le> (1 / 2 :: rat)"
      by (rule multishot_near[OF ck(5,6) d1(2,3)])
    have n2: "\<bar>of_int ?r2 - ((of_int (uint v2) - 1000) * (of_nat (MULTISHOT_TIMER_MHZ tgt) * 20 / 1000) +
             of_nat (MULTISHOT_TIMER_MHZ tgt) * 5)\<bar> \<le> (1 / 2 :: rat)"
      by (rule multishot_near[OF ck(5,6) d2(2,3)])
    have "0 \<le> ?r1"
      by (rule nearest_bounds(1)[OF n1 multishot_exact_bounds[OF d1(2,3) ck(6)]])
    moreover have "?r2 \<le> 6375"
      by (rule nearest_bounds(2)[OF n2 multishot_exact_bounds[OF d2(2,3) ck(6)]])
    moreover have "?r1 \<le> ?r2"
      by (rule nearest_mono[OF n1 n2 multishot_exact_strict[OF assms(3) ck(5)]])
    ultimately show ?thesis unfolding WriteMultiShot
      by (intro exI[of _ ?r1] exI[of _ ?r2]) simp
  next
    case WriteDigital
    then show ?thesis using assms(5) by simp
  qed
qed

text \<open>
  Claim C9. With clock constants in \<open>1..255\<close> and a compare register at least 16 bits wide,
  each of the five analog write functions (Standard, Brushed, OneShot125, OneShot42,
  Multishot) stores for \<open>v1\<close> a register value that is at most the one it stores for \<open>v2\<close>,
  whenever \<open>1000 \<le> v1 < v2 \<le> 2000\<close>.
\<close>

theorem encoders_monotone:
  assumes "clocks_ok tgt" and "16 \<le> LENGTH('w::len)"
    and "1000 \<le> uint v1" and "uint v1 < uint v2" and "uint v2 \<le> 2000"
    and "unat i < MAX_SUPPORTED_MOTORS s" and "ccr (motors s ! unat i) = Some a"
    and "f \<noteq> WriteDigital"
  shows "\<exists>c1 c2 :: 'w word.
           call_pwmWritePtr f tgt i v1 s = Inr (s\<lparr>regs := (regs s)(a := c1)\<rparr>) \<and>
           call_pwmWritePtr f tgt i v2 s = Inr (s\<lparr>regs := (regs s)(a := c2)\<rparr>) \<and>
           c1 \<le> c2"
proof -
  have inb: "unat i < length (motors s)" using assms(6) by (simp add: MAX_SUPPORTED_MOTORS_def)
  let ?per = "period (motors s ! unat i)"
  obtain r1 r2 where r:
    "(protocol_compare tgt f ?per v1 :: 'w word option) = Some (word_of_int r1)"
    "(protocol_compare tgt f ?per v2 :: 'w word option) = Some (word_of_int r2)"
    "0 \<le> r1" "r1 \<le> r2" "r2 < 65536"
    using analog_values_monotone[OF assms(1,3,4,5,8), of ?per, where ?'w = 'w] by blast
  have "call_pwmWritePtr f tgt i v1 s = Inr (s\<lparr>regs := (regs s)(a := word_of_int r1)\<rparr>)"
    by (rule call_analog_write[OF inb assms(7) r(1)])
  moreover have "call_pwmWritePtr f tgt i v2 s = Inr (s\<lparr>regs := (regs s)(a := word_of_int r2)\<rparr>)"
    by (rule call_analog_write[OF inb assms(7) r(2)])
  moreover have "(word_of_int r1 :: 'w word) \<le> word_of_int r2"
    by (rule word_of_int_mono16[OF assms(2) r(3,4,5)])
  ultimately show ?thesis by blast
qed

text \<open>Multishot at 72 MHz on motor 0 of the example bank, values 1000 and 2000.\<close>

theorem encoders_monotone_witness:
  "clocks_ok example_target \<and> 16 \<le> LENGTH(32) \<and>
   1000 \<le> uint (1000 :: uint16_t) \<and> uint (1000 :: uint16_t) < uint (2000 :: uint16_t) \<and>
   uint (2000 :: uint16_t) \<le> 2000 \<and>
   unat (0 :: uint8_t) < MAX_SUPPORTED_MOTORS example_state \<and>
   ccr (motors example_state ! unat (0 :: uint8_t)) = Some 10 \<and>
   (\<exists>c1 c2 :: 32 word.
      call_pwmWritePtr WriteMultiShot example_target 0 1000 example_state =
        Inr (example_state\<lparr>regs := (regs example_state)(10 := c1)\<rparr>) \<and>
      call_pwmWritePtr WriteMultiShot example_target 0 2000 example_state =
        Inr (example_state\<lparr>regs := (regs example_state)(10 := c2)\<rparr>) \<and>
      c1 \<le> c2)"
proof -
  have h1: "clocks_ok example_target" by (simp add: clocks_ok_def example_target_def)
  have h2: "16 \<le> LENGTH(32)" by simp
  have h3: "1000 \<le> uint (1000 :: uint16_t)"
    and h4: "uint (1000 :: uint16_t) < uint (2000 :: uint16_t)"
    and h5: "uint (2000 :: uint16_t) \<le> 2000" by simp_all
  have h6: "unat (0 :: uint8_t) < MAX_SUPPORTED_MOTORS example_state"
    by (simp add: MAX_SUPPORTED_MOTORS_def example_state_def)
  have h7: "ccr (motors example_state ! unat (0 :: uint8_t)) = Some 10"
    by (simp add: example_state_def example_port_def)
  have h8: "WriteMultiShot \<noteq> WriteDigital" by simp
  show ?thesis
    using encoders_monotone[OF h1 h2 h3 h4 h5 h6 h7 h8] h1 h2 h3 h4 h5 h6 h7 by blast
qed

text \<open>
  Claim C8 as stated has every stored value equal to the rounded exact value of the formula.
  The Multishot encoder computes in \<^verbatim>\<open>float\<close>, and \<open>20 / 1000\<close> times the clock is not a
  binary fraction: with a clock of 53 MHz the value 1625 has the exact result \<open>927.5\<close>, which
  rounds to 928 whether ties go up or to the even integer, and the code stores 927.
\<close>

theorem multishot_53_counterexample:
  "clocks_ok (example_target\<lparr>MULTISHOT_TIMER_MHZ := 53\<rparr>) \<and>
   1000 \<le> uint (1625 :: uint16_t) \<and> uint (1625 :: uint16_t) \<le> 2000 \<and>
   (of_int (uint (1625 :: uint16_t)) - 1000) *
     (of_nat (MULTISHOT_TIMER_MHZ (example_target\<lparr>MULTISHOT_TIMER_MHZ := 53\<rparr>)) * 20 / 1000) +
     of_nat (MULTISHOT_TIMER_MHZ (example_target\<lparr>MULTISHOT_TIMER_MHZ := 53\<rparr>)) * 5 = (1855 / 2 :: rat) \<and>
   round_half_even (1855 / 2) = 928 \<and>
   multishot_compare (example_target\<lparr>MULTISHOT_TIMER_MHZ := 53\<rparr>) 1625 = 927 \<and>
   pwmWriteMultiShot (example_target\<lparr>MULTISHOT_TIMER_MHZ := 53\<rparr>) 0 1625 example_state =
     Inr (example_state\<lparr>regs := (regs example_state)(10 := 927)\<rparr>)"
proof -
  let ?T = "example_target\<lparr>MULTISHOT_TIMER_MHZ := 53\<rparr>"
  have a: "clocks_ok ?T" by (simp add: clocks_ok_def example_target_def)
  have b: "1000 \<le> uint (1625 :: uint16_t)" "uint (1625 :: uint16_t) \<le> 2000" by simp_all
  have c: "(of_int (uint (1625 :: uint16_t)) - 1000) *
     (of_nat (MULTISHOT_TIMER_MHZ ?T) * 20 / 1000) + of_nat (MULTISHOT_TIMER_MHZ ?T) * 5 = (1855 / 2 :: rat)"
    by (simp add: example_target_def)
  have d: "round_half_even (1855 / 2) = 928" by code_simp
  have e: "multishot_compare ?T 1625 = 927" by code_simp
  have f: "pwmWriteMultiShot ?T 0 1625 example_state =
     Inr (example_state\<lparr>regs := (regs example_state)(10 := 927)\<rparr>)"
    unfolding pwmWriteMultiShot_def e
    by (simp add: store_motor_ccr_def example_state_def example_port_def)
  show ?thesis using a b c d e f by blast
qed

text \<open>
  Claim C8, amended. With clock constants in \<open>1..255\<close> and a command value in \<open>[1000, 2000]\<close>:
  OneShot125 stores exactly \<open>value * mhz / 8\<close> and OneShot42 exactly \<open>value * mhz / 24\<close>
  rounded to the nearest integer, ties to the even integer. Multishot stores a nearest integer to
  \<open>(value - 1000) * (mhz * 20 / 1000) + mhz * 5\<close>, and exactly its rounded value whenever that
  exact value is not halfway between two integers (the numerator over 50 is not 25 modulo 50),
  as is the case of every even clock constant. Each stored integer lies in \<open>[0, 65535]\<close>. With
  \<open>mhz = 8\<close>, OneShot125 gives 1000 and 2000 for the values 1000 and 2000, and Multishot
  gives 40 and 200.
\<close>

theorem oneshot_family_rounds_to_nearest:
  assumes "clocks_ok tgt" and "1000 \<le> uint v" and "uint v \<le> 2000"
    and "unat i < MAX_SUPPORTED_MOTORS s" and "ccr (motors s ! unat i) = Some a"
  shows "pwmWriteOneShot125 tgt i v s =
           Inr (s\<lparr>regs := (regs s)(a := word_of_int (oneshot125_compare tgt v))\<rparr>) \<and>
         oneshot125_compare tgt v =
           round_half_even (of_int (uint v) * of_nat (ONESHOT125_TIMER_MHZ tgt) / 8) \<and>
         0 \<le> oneshot125_compare tgt v \<and> oneshot125_compare tgt v < 65536 \<and>
         pwmWriteOneShot42 tgt i v s =
           Inr (s\<lparr>regs := (regs s)(a := word_of_int (oneshot42_compare tgt v))\<rparr>) \<and>
         oneshot42_compare tgt v =
           round_half_even (of_int (uint v) * of_nat (ONESHOT42_TIMER_MHZ tgt) / 24) \<and>
         0 \<le> oneshot42_compare tgt v \<and> oneshot42_compare tgt v < 65536 \<and>
         pwmWriteMultiShot tgt i v s =
           Inr (s\<lparr>regs := (regs s)(a := word_of_int (multishot_compare tgt v))\<rparr>) \<and>
         \<bar>of_int (multishot_compare tgt v) -
            ((of_int (uint v) - 1000) * (of_nat (MULTISHOT_TIMER_MHZ tgt) * 20 / 1000) +
             of_nat (MULTISHOT_TIMER_MHZ tgt) * 5)\<bar> \<le> (1 / 2 :: rat) \<and>
         (((uint v - 1000) * int (MULTISHOT_TIMER_MHZ tgt) +
            250 * int (MULTISHOT_TIMER_MHZ tgt)) mod 50 \<noteq> 25 \<longrightarrow>
          multishot_compare tgt v =
            round_half_even ((of_int (uint v) - 1000) * (of_nat (MULTISHOT_TIMER_MHZ tgt) * 20 / 1000) +
                             of_nat (MULTISHOT_TIMER_MHZ tgt) * 5)) \<and>
         (even (MULTISHOT_TIMER_MHZ tgt) \<longrightarrow>
          multishot_compare tgt v =
            round_half_even ((of_int (uint v) - 1000) * (of_nat (MULTISHOT_TIMER_MHZ tgt) * 20 / 1000) +
                             of_nat (MULTISHOT_TIMER_MHZ tgt) * 5)) \<and>
         0 \<le> multishot_compare tgt v \<and> multishot_compare tgt v < 65536 \<and>
         (ONESHOT125_TIMER_MHZ tgt = 8 \<and> v = 1000 \<longrightarrow> oneshot125_compare tgt v = 1000) \<and>
         (ONESHOT125_TIMER_MHZ tgt = 8 \<and> v = 2000 \<longrightarrow> oneshot125_compare tgt v = 2000) \<and>
         (MULTISHOT_TIMER_MHZ tgt = 8 \<and> v = 1000 \<longrightarrow> multishot_compare tgt v = 40) \<and>
         (MULTISHOT_TIMER_MHZ tgt = 8 \<and> v = 2000 \<longrightarrow> multishot_compare tgt v = 200)"
proof -
  have inb: "unat i < length (motors s)" using assms(4) by (simp add: MAX_SUPPORTED_MOTORS_def)
  have d: "0 \<le> uint v" "1000 \<le> uint v" "uint v \<le> 2000" using assms(2,3) by simp_all
  have ck: "0 < ONESHOT125_TIMER_MHZ tgt" "ONESHOT125_TIMER_MHZ tgt \<le> 255"
    "0 < ONESHOT42_TIMER_MHZ tgt" "ONESHOT42_TIMER_MHZ tgt \<le> 255"
    "0 < MULTISHOT_TIMER_MHZ tgt" "MULTISHOT_TIMER_MHZ tgt \<le> 255"
    using assms(1) by (simp_all add: clocks_ok_def)
  have w1: "pwmWriteOneShot125 tgt i v s =
           Inr (s\<lparr>regs := (regs s)(a := word_of_int (oneshot125_compare tgt v))\<rparr>)"
    and w2: "pwmWriteOneShot42 tgt i v s =
           Inr (s\<lparr>regs := (regs s)(a := word_of_int (oneshot42_compare tgt v))\<rparr>)"
    and w3: "pwmWriteMultiShot tgt i v s =
           Inr (s\<lparr>regs := (regs s)(a := word_of_int (multishot_compare tgt v))\<rparr>)"
    using inb assms(5)
    by (simp_all add: pwmWriteOneShot125_def pwmWriteOneShot42_def pwmWriteMultiShot_def
          store_motor_ccr_def)
  have x1: "oneshot125_compare tgt v =
           round_half_even (of_int (uint v) * of_nat (ONESHOT125_TIMER_MHZ tgt) / 8)"
    by (rule oneshot125_exact[OF ck(2)])
  have x2: "oneshot42_compare tgt v =
           round_half_even (of_int (uint v) * of_nat (ONESHOT42_TIMER_MHZ tgt) / 24)"
    by (rule oneshot42_exact[OF ck(4)])
  have x3: "multishot_compare tgt v =
            round_half_even ((of_int (uint v) - 1000) * (of_nat (MULTISHOT_TIMER_MHZ tgt) * 20 / 1000) +
                             of_nat (MULTISHOT_TIMER_MHZ tgt) * 5)"
    if "((uint v - 1000) * int (MULTISHOT_TIMER_MHZ tgt) +
            250 * int (MULTISHOT_TIMER_MHZ tgt)) mod 50 \<noteq> 25"
    by (rule multishot_exact[OF ck(5,6) d(2,3) that])
  have x4: "multishot_compare tgt v =
            round_half_even ((of_int (uint v) - 1000) * (of_nat (MULTISHOT_TIMER_MHZ tgt) * 20 / 1000) +
                             of_nat (MULTISHOT_TIMER_MHZ tgt) * 5)"
    if "even (MULTISHOT_TIMER_MHZ tgt)"
    by (rule x3[OF multishot_even_clock[OF that]])
  have n1: "\<bar>of_int (oneshot125_compare tgt v) -
            of_int (uint v) * of_nat (ONESHOT125_TIMER_MHZ tgt) / 8\<bar> \<le> (1 / 2 :: rat)"
    by (rule oneshot125_near[OF ck(2)])
  have n2: "\<bar>of_int (oneshot42_compare tgt v) -
            of_int (uint v) * of_nat (ONESHOT42_TIMER_MHZ tgt) / 24\<bar> \<le> (1 / 2 :: rat)"
    by (rule oneshot42_near[OF ck(4)])
  have n3: "\<bar>of_int (multishot_compare tgt v) -
            ((of_int (uint v) - 1000) * (of_nat (MULTISHOT_TIMER_MHZ tgt) * 20 / 1000) +
             of_nat (MULTISHOT_TIMER_MHZ tgt) * 5)\<bar> \<le> (1 / 2 :: rat)"
    by (rule multishot_near[OF ck(5,6) d(2,3)])
  have g8: "(8 :: rat) \<le> 8" and g24: "(8 :: rat) \<le> 24" by simp_all
  have b1: "0 \<le> oneshot125_compare tgt v" "oneshot125_compare tgt v \<le> 63750"
    by (rule nearest_bounds[OF n1 scaled_bounds[OF d(1) d(3) ck(2) g8]])+
  have b2: "0 \<le> oneshot42_compare tgt v" "oneshot42_compare tgt v \<le> 63750"
    by (rule nearest_bounds[OF n2 scaled_bounds[OF d(1) d(3) ck(4) g24]])+
  have b3: "0 \<le> multishot_compare tgt v" "multishot_compare tgt v \<le> 6375"
    by (rule nearest_bounds[OF n3 multishot_exact_bounds[OF d(2,3) ck(6)]])+
  have l1: "oneshot125_compare tgt v = 1000" if "ONESHOT125_TIMER_MHZ tgt = 8 \<and> v = 1000"
  proof -
    have "(of_int (uint v) * of_nat (ONESHOT125_TIMER_MHZ tgt) / 8 :: rat) = of_int 1000"
      using that by simp
    then show ?thesis using n1 nearest_int_eq by simp
  qed
  have l2: "oneshot125_compare tgt v = 2000" if "ONESHOT125_TIMER_MHZ tgt = 8 \<and> v = 2000"
  proof -
    have "(of_int (uint v) * of_nat (ONESHOT125_TIMER_MHZ tgt) / 8 :: rat) = of_int 2000"
      using that by simp
    then show ?thesis using n1 nearest_int_eq by simp
  qed
  have l3: "multishot_compare tgt v = 40" if "MULTISHOT_TIMER_MHZ tgt = 8 \<and> v = 1000"
  proof -
    have "((of_int (uint v) - 1000) * (of_nat (MULTISHOT_TIMER_MHZ tgt) * 20 / 1000) +
             of_nat (MULTISHOT_TIMER_MHZ tgt) * 5 :: rat) = of_int 40"
      using that by simp
    then show ?thesis using n3 nearest_int_eq by simp
  qed
  have l4: "multishot_compare tgt v = 200" if "MULTISHOT_TIMER_MHZ tgt = 8 \<and> v = 2000"
  proof -
    have "((of_int (uint v) - 1000) * (of_nat (MULTISHOT_TIMER_MHZ tgt) * 20 / 1000) +
             of_nat (MULTISHOT_TIMER_MHZ tgt) * 5 :: rat) = of_int 200"
      using that by simp
    then show ?thesis using n3 nearest_int_eq by simp
  qed
  have c1: "oneshot125_compare tgt v < 65536" and c2: "oneshot42_compare tgt v < 65536"
    and c3: "multishot_compare tgt v < 65536"
    using b1(2) b2(2) b3(2) by simp_all
  show ?thesis
    using w1 w2 w3 x1 x2 x3 x4 n3 b1(1) b2(1) b3(1) c1 c2 c3 l1 l2 l3 l4 by blast
qed

text \<open>
  Motor 0 of the example bank. With the OneShot125 and Multishot clocks at 8 MHz: the four
  literal cases. With clocks of 12, 21 and 53 MHz: the OneShot125 value 1003 (exactly
  \<open>1504.5\<close>) stores 1504, the OneShot42 value 1004 (exactly \<open>878.5\<close>) stores 878, and the
  Multishot value 1500 (exactly 795) stores 795.
\<close>

theorem oneshot_family_rounds_to_nearest_witness:
  "clocks_ok (example_target\<lparr>MULTISHOT_TIMER_MHZ := 8\<rparr>) \<and>
   clocks_ok (example_target\<lparr>ONESHOT125_TIMER_MHZ := 12, ONESHOT42_TIMER_MHZ := 21,
                             MULTISHOT_TIMER_MHZ := 53\<rparr>) \<and>
   unat (0 :: uint8_t) < MAX_SUPPORTED_MOTORS example_state \<and>
   ccr (motors example_state ! unat (0 :: uint8_t)) = Some 10 \<and>
   pwmWriteOneShot125 (example_target\<lparr>MULTISHOT_TIMER_MHZ := 8\<rparr>) 0 1000 example_state =
     Inr (example_state\<lparr>regs := (regs example_state)(10 := 1000)\<rparr>) \<and>
   pwmWriteOneShot125 (example_target\<lparr>MULTISHOT_TIMER_MHZ := 8\<rparr>) 0 2000 example_state =
     Inr (example_state\<lparr>regs := (regs example_state)(10 := 2000)\<rparr>) \<and>
   pwmWriteMultiShot (example_target\<lparr>MULTISHOT_TIMER_MHZ := 8\<rparr>) 0 1000 example_state =
     Inr (example_state\<lparr>regs := (regs example_state)(10 := 40)\<rparr>) \<and>
   pwmWriteMultiShot (example_target\<lparr>MULTISHOT_TIMER_MHZ := 8\<rparr>) 0 2000 example_state =
     Inr (example_state\<lparr>regs := (regs example_state)(10 := 200)\<rparr>) \<and>
   pwmWriteOneShot125 (example_target\<lparr>ONESHOT125_TIMER_MHZ := 12, ONESHOT42_TIMER_MHZ := 21,
                                      MULTISHOT_TIMER_MHZ := 53\<rparr>) 0 1003 example_state =
     Inr (example_state\<lparr>regs := (regs example_state)(10 := 1504)\<rparr>) \<and>
   pwmWriteOneShot42 (example_target\<lparr>ONESHOT125_TIMER_MHZ := 12, ONESHOT42_TIMER_MHZ := 21,
                                     MULTISHOT_TIMER_MHZ := 53\<rparr>) 0 1004 example_state =
     Inr (example_state\<lparr>regs := (regs example_state)(10 := 878)\<rparr>) \<and>
   pwmWriteMultiShot (example_target\<lparr>ONESHOT125_TIMER_MHZ := 12, ONESHOT42_TIMER_MHZ := 21,
                                     MULTISHOT_TIMER_MHZ := 53\<rparr>) 0 1500 example_state =
     Inr (example_state\<lparr>regs := (regs example_state)(10 := 795)\<rparr>)"
proof -
  let ?T = "example_target\<lparr>MULTISHOT_TIMER_MHZ := 8\<rparr>"
  let ?U = "example_target\<lparr>ONESHOT125_TIMER_MHZ := 12, ONESHOT42_TIMER_MHZ := 21,
                           MULTISHOT_TIMER_MHZ := 53\<rparr>"
  have h1: "clocks_ok ?T" and k1: "clocks_ok ?U" by (simp_all add: clocks_ok_def example_target_def)
  have h2: "1000 \<le> uint (1000 :: uint16_t)" and h3: "uint (1000 :: uint16_t) \<le> 2000"
    and h2': "1000 \<le> uint (2000 :: uint16_t)" and h3': "uint (2000 :: uint16_t) \<le> 2000"
    and k2: "1000 \<le> uint (1003 :: uint16_t)" and k3: "uint (1003 :: uint16_t) \<le> 2000"
    and k2': "1000 \<le> uint (1004 :: uint16_t)" and k3': "uint (1004 :: uint16_t) \<le> 2000"
    and k2'': "1000 \<le> uint (1500 :: uint16_t)" and k3'': "uint (1500 :: uint16_t) \<le> 2000"
    by simp_all
  have h4: "unat (0 :: uint8_t) < MAX_SUPPORTED_MOTORS example_state"
    by (simp add: MAX_SUPPORTED_MOTORS_def example_state_def)
  have h5: "ccr (motors example_state ! unat (0 :: uint8_t)) = Some 10"
    by (simp add: example_state_def example_port_def)
  have m: "ONESHOT125_TIMER_MHZ ?T = 8" "MULTISHOT_TIMER_MHZ ?T = 8"
    by (simp_all add: example_target_def)
  note A = oneshot_family_rounds_to_nearest[OF h1 h2 h3 h4 h5]
  note B = oneshot_family_rounds_to_nearest[OF h1 h2' h3' h4 h5]
  note C = oneshot_family_rounds_to_nearest[OF k1 k2 k3 h4 h5]
  note D = oneshot_family_rounds_to_nearest[OF k1 k2' k3' h4 h5]
  note E = oneshot_family_rounds_to_nearest[OF k1 k2'' k3'' h4 h5]
  have a1: "oneshot125_compare ?T 1000 = 1000" and a3: "multishot_compare ?T 1000 = 40"
    using A m by blast+
  have a2: "oneshot125_compare ?T 2000 = 2000" and a4: "multishot_compare ?T 2000 = 200"
    using B m by blast+
  have r5: "round_half_even (of_int (uint (1003 :: uint16_t)) * of_nat (ONESHOT125_TIMER_MHZ ?U) / 8) = 1504"
    by code_simp
  have r6: "round_half_even (of_int (uint (1004 :: uint16_t)) * of_nat (ONESHOT42_TIMER_MHZ ?U) / 24) = 878"
    by code_simp
  have r7: "round_half_even ((of_int (uint (1500 :: uint16_t)) - 1000) *
               (of_nat (MULTISHOT_TIMER_MHZ ?U) * 20 / 1000) + of_nat (MULTISHOT_TIMER_MHZ ?U) * 5) = 795"
    by code_simp
  have nt: "((uint (1500 :: uint16_t) - 1000) * int (MULTISHOT_TIMER_MHZ ?U) +
              250 * int (MULTISHOT_TIMER_MHZ ?U)) mod 50 \<noteq> 25"
    by (simp add: example_target_def)
  have a5: "oneshot125_compare ?U 1003 = 1504" using C r5 by simp
  have a6: "oneshot42_compare ?U 1004 = 878" using D r6 by simp
  have e7: "multishot_compare ?U 1500 =
            round_half_even ((of_int (uint (1500 :: uint16_t)) - 1000) *
               (of_nat (MULTISHOT_TIMER_MHZ ?U) * 20 / 1000) + of_nat (MULTISHOT_TIMER_MHZ ?U) * 5)"
    using E nt by blast
  have a7: "multishot_compare ?U 1500 = 795" using e7 r7 by simp
  have "pwmWriteOneShot125 ?T 0 1000 example_state =
     Inr (example_state\<lparr>regs := (regs example_state)(10 := 1000)\<rparr>)"
    using A a1 by simp
  moreover have "pwmWriteOneShot125 ?T 0 2000 example_state =
     Inr (example_state\<lparr>regs := (regs example_state)(10 := 2000)\<rparr>)"
    using B a2 by simp
  moreover have "pwmWriteMultiShot ?T 0 1000 example_state =
     Inr (example_state\<lparr>regs := (regs example_state)(10 := 40)\<rparr>)"
    using A a3 by simp
  moreover have "pwmWriteMultiShot ?T 0 2000 example_state =
     Inr (example_state\<lparr>regs := (regs example_state)(10 := 200)\<rparr>)"
    using B a4 by simp
  moreover have "pwmWriteOneShot125 ?U 0 1003 example_state =
     Inr (example_state\<lparr>regs := (regs example_state)(10 := 1504)\<rparr>)"
    using C a5 by simp
  moreover have "pwmWriteOneShot42 ?U 0 1004 example_state =
     Inr (example_state\<lparr>regs := (regs example_state)(10 := 878)\<rparr>)"
    using D a6 by simp
  moreover have "pwmWriteMultiShot ?U 0 1500 example_state =
     Inr (example_state\<lparr>regs := (regs example_state)(10 := 795)\<rparr>)"
    using E a7 by simp
  ultimately show ?thesis using h1 k1 h4 h5 by blast
qed

end
